theory Spec2Isabelle
  imports Complex_Main "HOL-Library.Word" "HOL-Library.Log_Nat"
begin

unbundle bit_operations_syntax

section \<open>JavaScript values, the platform and errors\<close>

text \<open>
  The development embeds three parts of the bundle \<^verbatim>\<open>src/unnamed/part_000\<close>: the vendored
  codec \<^verbatim>\<open>osc\<close> (osc.js 2.4.5), the worker orchestrator \<^verbatim>\<open>ScsynthOSC\<close> and the
  \<^verbatim>\<open>SuperSonic\<close> front end with its clock offset.

  Conventions of the embedding.
  \<^item> A JavaScript string is the list of its UTF-16 code units; \<open>str\<close> turns an ASCII literal
    into one.
  \<^item> A JavaScript number is a real; NaN and the infinities do not occur. The arithmetic
    of the two time conversions of the codec, \<^verbatim>\<open>osc.ntpToJSTime\<close> and \<^verbatim>\<open>osc.jsToNTPTime\<close>,
    is that of IEEE-754 doubles: every operation is rounded with \<open>double\<close>. The arithmetic
    of the front end (clock offset and release delay) is exact. The conversions between
    numbers and IEEE-754 bit patterns (\<^verbatim>\<open>DataView.getFloat32\<close> and friends) belong to the
    platform and are parameters.
  \<^item> The platform is a browser: \<^verbatim>\<open>osc.isBufferEnv\<close> is false and \<^verbatim>\<open>osc.Long\<close> is
    undefined. \<^verbatim>\<open>TextEncoder\<close> and \<^verbatim>\<open>TextDecoder\<close> may or may not exist, as the codec itself
    tests; when present they are parameters.
  \<^item> An exception is a value \<open>Inl e\<close>. Where the codec would coerce an ill-typed value
    (a string where a number is written, say) the embedding answers \<open>Unmodelled\<close>; no
    statement below reads \<open>Unmodelled\<close> as an exception of the program.
\<close>

type_synonym byte = "8 word"
type_synonym jsstring = "16 word list"

definition str :: "string \<Rightarrow> jsstring" where
  "str s = map (\<lambda>c. of_nat (of_char c)) s"

datatype jsval =
    JUndefined
  | JNull
  | JBool bool
  | JNum real
  | JStr jsstring
  | JUint8Array "byte list"
  | JArrayBuffer "byte list"
  | JArray "jsval list"
  | JObject "(string \<times> jsval) list"
  | JFunction

datatype error =
    RangeError
  | TypeError
  | MalformedTypeTagString jsstring
  | InvalidTypeTag "16 word" jsstring
  | UnterminatedArray jsstring
  | MalformedAddress jsstring
  | BadHeader jsstring
  | InvalidMessage
  | InvalidBundle
  | UnrecognizedPacket
  | CantInferType jsval
  | CantWrap
  | NotInitialized
  | UnsupportedArgument
  | BadOscData
  | WorkerInitTimeout string
  | OutOfFuel
  | Unmodelled

record platform =
  dateNow :: real
  textEncoder :: "(jsstring \<Rightarrow> byte list) option"
  textDecoder :: "(byte list \<Rightarrow> jsstring) option"
  getFloat32 :: "32 word \<Rightarrow> real"
  setFloat32 :: "real \<Rightarrow> 32 word"
  getFloat64 :: "64 word \<Rightarrow> real"
  setFloat64 :: "real \<Rightarrow> 64 word"

record options =
  metadata :: bool
  unpackSingleArgs :: bool

text \<open>\<^verbatim>\<open>osc.defaults\<close>.\<close>

definition defaults :: options where
  "defaults = \<lparr>metadata = False, unpackSingleArgs = True\<rparr>"

definition SECS_70YRS :: real where
  "SECS_70YRS = 2208988800"

definition TWO_32 :: real where
  "TWO_32 = 4294967296"

text \<open>Sequencing of computations that may throw.\<close>

definition bind :: "error + 'a \<Rightarrow> ('a \<Rightarrow> error + 'b) \<Rightarrow> error + 'b" where
  "bind m f = (case m of Inl e \<Rightarrow> Inl e | Inr x \<Rightarrow> f x)"

subsection \<open>Property access and coercions\<close>

text \<open>
  \<open>getProp v k\<close> is \<^verbatim>\<open>v.k\<close> for the property names the codec reads (none of which is a
  built-in property of a string, an array or a typed array): a TypeError on
  \<^verbatim>\<open>null\<close> and \<^verbatim>\<open>undefined\<close>, \<^verbatim>\<open>undefined\<close> when the property is absent.
\<close>

fun getProp :: "jsval \<Rightarrow> string \<Rightarrow> error + jsval" where
  "getProp JUndefined k = Inl TypeError"
| "getProp JNull k = Inl TypeError"
| "getProp (JObject fs) k = (case map_of fs k of None \<Rightarrow> Inr JUndefined | Some v \<Rightarrow> Inr v)"
| "getProp v k = Inr JUndefined"

fun truthy :: "jsval \<Rightarrow> bool" where
  "truthy JUndefined = False"
| "truthy JNull = False"
| "truthy (JBool b) = b"
| "truthy (JNum r) = (r \<noteq> 0)"
| "truthy (JStr s) = (s \<noteq> [])"
| "truthy v = True"


text \<open>\<^verbatim>\<open>osc.isArray\<close>: \<^verbatim>\<open>obj && Object.prototype.toString.call(obj) === "[object Array]"\<close>.\<close>

fun isArray :: "jsval \<Rightarrow> bool" where
  "isArray (JArray vs) = True"
| "isArray v = False"

text \<open>Truncation towards zero, then the low 32 (8) bits: ToInt32, ToUint32 and ToUint8.\<close>

definition trunc :: "real \<Rightarrow> int" where
  "trunc r = (if 0 \<le> r then \<lfloor>r\<rfloor> else \<lceil>r\<rceil>)"

definition toInt32 :: "real \<Rightarrow> 32 word" where
  "toInt32 r = word_of_int (trunc r)"

definition toUint8 :: "real \<Rightarrow> byte" where
  "toUint8 r = word_of_int (trunc r)"

text \<open>
  The number a value is coerced to where an integer is stored; \<^verbatim>\<open>undefined\<close> is NaN, which
  every integer store turns into 0.
\<close>

fun intOperand :: "jsval \<Rightarrow> error + real" where
  "intOperand (JNum r) = Inr r"
| "intOperand JUndefined = Inr 0"
| "intOperand JNull = Inr 0"
| "intOperand (JBool b) = Inr (if b then 1 else 0)"
| "intOperand v = Inl Unmodelled"

fun floatOperand :: "jsval \<Rightarrow> error + real" where
  "floatOperand (JNum r) = Inr r"
| "floatOperand JNull = Inr 0"
| "floatOperand (JBool b) = Inr (if b then 1 else 0)"
| "floatOperand v = Inl Unmodelled"

text \<open>\<^verbatim>\<open>Math.round\<close>: to the nearest integer, halves upwards.\<close>

definition Math_round :: "real \<Rightarrow> real" where
  "Math_round r = of_int \<lfloor>r + 1 / 2\<rfloor>"

definition Math_floor :: "real \<Rightarrow> real" where
  "Math_floor r = of_int \<lfloor>r\<rfloor>"

subsection \<open>IEEE-754 doubles\<close>

text \<open>
  The result of an arithmetic operation on doubles is the exact result rounded to the
  nearest double, a tie going to the double with an even significand. \<open>exponent x\<close> is the
  \<open>e\<close> with \<open>2^e \<le> x < 2^(e+1)\<close> for a positive \<open>x\<close>. A double has 53 significant bits, so
  the doubles around \<open>x\<close> are \<open>2^(e-52)\<close> apart, and \<open>2^(-1074)\<close> apart below \<open>2^(-1022)\<close>.
  Overflow to an infinity is not represented: no number of the time conversions comes
  near \<open>2^1024\<close>.
\<close>

definition roundEven :: "real \<Rightarrow> int" where
  "roundEven q =
     (let n = \<lfloor>q\<rfloor>
      in if q - of_int n < 1 / 2 then n
         else if 1 / 2 < q - of_int n then n + 1
         else if even n then n else n + 1)"

definition exponent :: "real \<Rightarrow> int" where
  "exponent x = (if 1 \<le> x then bitlen \<lfloor>x\<rfloor> - 1 else - bitlen (\<lceil>1 / x\<rceil> - 1))"

definition double :: "real \<Rightarrow> real" where
  "double x =
     (if x = 0 then 0
      else let e = max (exponent \<bar>x\<bar>) (- 1022);
               ulp = 2 powi (e - 52)
           in sgn x * of_int (roundEven (\<bar>x\<bar> / ulp)) * ulp)"

section \<open>Bytes and views\<close>

text \<open>
  A \<^verbatim>\<open>Uint8Array\<close> or \<^verbatim>\<open>DataView\<close> is a window of \<open>byteLength\<close> bytes at \<open>byteOffset\<close> in
  its buffer; JavaScript cannot build one that leaves the buffer. \<^verbatim>\<open>osc.dataView\<close> applied
  to either gives the \<^verbatim>\<open>DataView\<close> of the same window.
\<close>

record dataview =
  buffer :: "byte list"
  byteOffset :: nat
  byteLength :: nat

definition wellformed :: "dataview \<Rightarrow> bool" where
  "wellformed dv = (byteOffset dv + byteLength dv \<le> length (buffer dv))"

definition ofBytes :: "byte list \<Rightarrow> dataview" where
  "ofBytes bs = \<lparr>buffer = bs, byteOffset = 0, byteLength = length bs\<rparr>"

definition window :: "dataview \<Rightarrow> byte list" where
  "window dv = take (byteLength dv) (drop (byteOffset dv) (buffer dv))"

definition be32 :: "32 word \<Rightarrow> byte list" where
  "be32 w = [ucast (drop_bit 24 w), ucast (drop_bit 16 w), ucast (drop_bit 8 w), ucast w]"

definition be64 :: "64 word \<Rightarrow> byte list" where
  "be64 w = [ucast (drop_bit 56 w), ucast (drop_bit 48 w), ucast (drop_bit 40 w),
             ucast (drop_bit 32 w), ucast (drop_bit 24 w), ucast (drop_bit 16 w),
             ucast (drop_bit 8 w), ucast w]"

fun word32 :: "byte list \<Rightarrow> 32 word" where
  "word32 [a, b, c, d] =
     push_bit 24 (ucast a) OR push_bit 16 (ucast b) OR push_bit 8 (ucast c) OR ucast d"
| "word32 bs = 0"

fun word64 :: "byte list \<Rightarrow> 64 word" where
  "word64 [a, b, c, d, e, f, g, h] =
     push_bit 56 (ucast a) OR push_bit 48 (ucast b) OR push_bit 40 (ucast c) OR
     push_bit 32 (ucast d) OR push_bit 24 (ucast e) OR push_bit 16 (ucast f) OR
     push_bit 8 (ucast g) OR ucast h"
| "word64 bs = 0"

text \<open>The \<^verbatim>\<open>DataView\<close> getters throw a RangeError when the read leaves the view.\<close>

definition getBytes :: "dataview \<Rightarrow> nat \<Rightarrow> nat \<Rightarrow> error + byte list" where
  "getBytes dv i n =
     (if i + n \<le> length (window dv) then Inr (take n (drop i (window dv))) else Inl RangeError)"

definition getUint32 :: "dataview \<Rightarrow> nat \<Rightarrow> error + 32 word" where
  "getUint32 dv i = bind (getBytes dv i 4) (\<lambda>bs. Inr (word32 bs))"

definition getUint64 :: "dataview \<Rightarrow> nat \<Rightarrow> error + 64 word" where
  "getUint64 dv i = bind (getBytes dv i 8) (\<lambda>bs. Inr (word64 bs))"

text \<open>
  \<^verbatim>\<open>new Uint8Array(dv.buffer, idx, len)\<close>: a window on the underlying buffer, counted from
  the start of the buffer and not of the view; a RangeError when it leaves the buffer or
  the length is negative.
\<close>

definition bufferSlice :: "dataview \<Rightarrow> nat \<Rightarrow> int \<Rightarrow> error + byte list" where
  "bufferSlice dv i n =
     (if 0 \<le> n \<and> i + nat n \<le> length (buffer dv) then Inr (take (nat n) (drop i (buffer dv)))
      else Inl RangeError)"

text \<open>
  \<^verbatim>\<open>len + 3 & ~3\<close>, the expression with which the codec pads a length or an index to a
  multiple of four. The source computes it on 32-bit integers: the sum is taken modulo
  \<open>2^32\<close> and read as a signed number, so from \<open>2^31 - 3\<close> on the result is not the padded
  length any more.
\<close>

definition paddedLength :: "nat \<Rightarrow> int" where
  "paddedLength len = sint ((word_of_nat (len + 3) :: 32 word) AND NOT 3)"

text \<open>
  The readers follow their index on the naturals with \<open>align4\<close>, the same expression without
  the wrap. The two agree while \<open>n + 3 < 2^31\<close> (\<open>paddedLength_small\<close> below), so the index
  of the readers is that of the source as long as it stays below \<open>2^31 - 3\<close>; what the
  readers of the source do once their index has wrapped is not followed.
\<close>

definition align4 :: "nat \<Rightarrow> nat" where
  "align4 n = (n + 3) div 4 * 4"

section \<open>The codec: reading\<close>

text \<open>
  The readers take the view and the index \<^verbatim>\<open>offsetState.idx\<close> and return the value read
  with the new index.
\<close>

definition decodeString :: "platform \<Rightarrow> byte list \<Rightarrow> jsstring" where
  "decodeString p charCodes =
     (case textDecoder p of Some decode \<Rightarrow> decode charCodes | None \<Rightarrow> map ucast charCodes)"

definition readString :: "platform \<Rightarrow> dataview \<Rightarrow> nat \<Rightarrow> jsstring \<times> nat" where
  "readString p dv idx =
     (let rest = drop idx (window dv);
          charCodes = takeWhile (\<lambda>b. b \<noteq> 0) rest;
          idx1 = idx + length charCodes + (if length charCodes < length rest then 1 else 0)
      in (decodeString p charCodes, align4 idx1))"

definition readInt32 :: "dataview \<Rightarrow> nat \<Rightarrow> error + int \<times> nat" where
  "readInt32 dv idx = bind (getUint32 dv idx) (\<lambda>w. Inr (sint w, idx + 4))"

definition readInt64 :: "dataview \<Rightarrow> nat \<Rightarrow> error + jsval \<times> nat" where
  "readInt64 dv idx =
     bind (readInt32 dv idx) (\<lambda>(high, idx1).
     bind (readInt32 dv idx1) (\<lambda>(low, idx2).
       Inr (JObject [(''high'', JNum (of_int high)), (''low'', JNum (of_int low)),
                     (''unsigned'', JBool False)], idx2)))"

definition readFloat32 :: "platform \<Rightarrow> dataview \<Rightarrow> nat \<Rightarrow> error + jsval \<times> nat" where
  "readFloat32 p dv idx = bind (getUint32 dv idx) (\<lambda>w. Inr (JNum (getFloat32 p w), idx + 4))"

definition readFloat64 :: "platform \<Rightarrow> dataview \<Rightarrow> nat \<Rightarrow> error + jsval \<times> nat" where
  "readFloat64 p dv idx = bind (getUint64 dv idx) (\<lambda>w. Inr (JNum (getFloat64 p w), idx + 8))"

text \<open>\<^verbatim>\<open>String.fromCharCode\<close> keeps the low 16 bits of the code.\<close>

definition readChar32 :: "dataview \<Rightarrow> nat \<Rightarrow> error + jsval \<times> nat" where
  "readChar32 dv idx = bind (getUint32 dv idx) (\<lambda>w. Inr (JStr [ucast w], idx + 4))"

definition readBlob :: "dataview \<Rightarrow> nat \<Rightarrow> error + jsval \<times> nat" where
  "readBlob dv idx =
     bind (readInt32 dv idx) (\<lambda>(len, idx1).
     bind (bufferSlice dv idx1 len) (\<lambda>blob.
       Inr (JUint8Array blob, idx1 + align4 (nat len))))"

definition readMIDIBytes :: "dataview \<Rightarrow> nat \<Rightarrow> error + jsval \<times> nat" where
  "readMIDIBytes dv idx = bind (bufferSlice dv idx 4) (\<lambda>midi. Inr (JUint8Array midi, idx + 4))"

definition readColor :: "dataview \<Rightarrow> nat \<Rightarrow> error + jsval \<times> nat" where
  "readColor dv idx =
     bind (bufferSlice dv idx 4) (\<lambda>bytes.
       Inr (JObject [(''r'', JNum (of_nat (unat (bytes ! 0)))),
                     (''g'', JNum (of_nat (unat (bytes ! 1)))),
                     (''b'', JNum (of_nat (unat (bytes ! 2)))),
                     (''a'', JNum (of_nat (unat (bytes ! 3)) / 255))], idx + 4))"

text \<open>
  \<^verbatim>\<open>osc.ntpToJSTime\<close> and \<^verbatim>\<open>osc.jsToNTPTime\<close>, each operation rounded to a double.
  \<^verbatim>\<open>Math.floor\<close> and \<^verbatim>\<open>Math.round\<close> of a double are doubles and need no rounding.
\<close>

definition ntpToJSTime :: "real \<Rightarrow> real \<Rightarrow> real" where
  "ntpToJSTime secs1900 frac1 =
     (let secs1970 = double (secs1900 - SECS_70YRS);
          decimals = double (frac1 / TWO_32);
          msTime = double (double (secs1970 + decimals) * 1000)
      in msTime)"

definition jsToNTPTime :: "real \<Rightarrow> real \<times> real" where
  "jsToNTPTime jsTime =
     (let secs = double (jsTime / 1000);
          secsWhole = Math_floor secs;
          secsFrac = double (secs - secsWhole);
          ntpSecs = double (secsWhole + SECS_70YRS);
          ntpFracs = Math_round (double (TWO_32 * secsFrac))
      in (ntpSecs, ntpFracs))"

definition readTimeTag :: "platform \<Rightarrow> dataview \<Rightarrow> nat \<Rightarrow> error + jsval \<times> nat" where
  "readTimeTag p dv idx =
     bind (getUint32 dv idx) (\<lambda>secs1900.
     bind (getUint32 dv (idx + 4)) (\<lambda>frac1.
       let native = (if secs1900 = 0 \<and> frac1 = 1 then dateNow p
                     else ntpToJSTime (of_nat (unat secs1900)) (of_nat (unat frac1)))
       in Inr (JObject [(''raw'', JArray [JNum (of_nat (unat secs1900)), JNum (of_nat (unat frac1))]),
                        (''native'', JNum native)], idx + 8)))"

text \<open>
  \<^verbatim>\<open>osc.argumentTypes\<close>, reader side: the reader of a type tag, \<open>None\<close> for a character
  that is not a key of the table.
\<close>

definition argumentReader ::
  "platform \<Rightarrow> 16 word \<Rightarrow> (dataview \<Rightarrow> nat \<Rightarrow> error + jsval \<times> nat) option" where
  "argumentReader p t =
     (if t = 0x69 then Some (\<lambda>dv idx. bind (readInt32 dv idx) (\<lambda>(n, i). Inr (JNum (of_int n), i)))
      else if t = 0x68 then Some readInt64
      else if t = 0x66 then Some (readFloat32 p)
      else if t = 0x73 then Some (\<lambda>dv idx. case readString p dv idx of (s, i) \<Rightarrow> Inr (JStr s, i))
      else if t = 0x53 then Some (\<lambda>dv idx. case readString p dv idx of (s, i) \<Rightarrow> Inr (JStr s, i))
      else if t = 0x62 then Some readBlob
      else if t = 0x74 then Some (readTimeTag p)
      else if t = 0x54 then Some (\<lambda>dv idx. Inr (JBool True, idx))
      else if t = 0x46 then Some (\<lambda>dv idx. Inr (JBool False, idx))
      else if t = 0x4E then Some (\<lambda>dv idx. Inr (JNull, idx))
      else if t = 0x49 then Some (\<lambda>dv idx. Inr (JNum 1, idx))
      else if t = 0x64 then Some (readFloat64 p)
      else if t = 0x63 then Some readChar32
      else if t = 0x72 then Some readColor
      else if t = 0x6D then Some readMIDIBytes
      else None)"

text \<open>
  \<^verbatim>\<open>osc.readArgument\<close>. The options are read after the value: with no options object the
  access \<^verbatim>\<open>options.metadata\<close> is a TypeError.
\<close>

definition readArgument ::
  "platform \<Rightarrow> 16 word \<Rightarrow> jsstring \<Rightarrow> dataview \<Rightarrow> options option \<Rightarrow> nat \<Rightarrow> error + jsval \<times> nat" where
  "readArgument p argType typeTagString dv opts idx =
     (case argumentReader p argType of
        None \<Rightarrow> Inl (InvalidTypeTag argType typeTagString)
      | Some reader \<Rightarrow>
          bind (reader dv idx) (\<lambda>(arg, idx1).
            case opts of
              None \<Rightarrow> Inl TypeError
            | Some opt \<Rightarrow>
                if metadata opt
                then Inr (JObject [(''type'', JStr [argType]), (''value'', arg)], idx1)
                else Inr (arg, idx1)))"

text \<open>\<^verbatim>\<open>Array.prototype.indexOf\<close>: the first position of an element, if any.\<close>

fun indexOf :: "'a list \<Rightarrow> 'a \<Rightarrow> nat option" where
  "indexOf [] x = None"
| "indexOf (y # ys) x = (if y = x then Some 0 else map_option Suc (indexOf ys x))"

text \<open>
  \<^verbatim>\<open>osc.readArgumentsIntoArray\<close>. The loop index \<^verbatim>\<open>i\<close> is the number of type tags already
  consumed, so the function recurses on the remaining tags \<^verbatim>\<open>argTypes.slice(i)\<close>; the
  arguments pushed onto \<^verbatim>\<open>arr\<close> are returned in order. At \<^verbatim>\<open>[\<close> the tags of the array are
  those up to the first \<^verbatim>\<open>]\<close> that follows, and the loop resumes after that \<^verbatim>\<open>]\<close>.
\<close>

function readArgumentsIntoArray ::
  "platform \<Rightarrow> 16 word list \<Rightarrow> jsstring \<Rightarrow> dataview \<Rightarrow> options option \<Rightarrow> nat
     \<Rightarrow> error + jsval list \<times> nat" where
  "readArgumentsIntoArray p [] typeTagString dv opts idx = Inr ([], idx)"
| "readArgumentsIntoArray p (argType # argTypes) typeTagString dv opts idx =
     (if argType = 0x5B then
        (case indexOf argTypes 0x5D of
           None \<Rightarrow> Inl (UnterminatedArray typeTagString)
         | Some endArrayIdx \<Rightarrow>
             (case readArgumentsIntoArray p (take endArrayIdx argTypes) typeTagString dv opts idx of
                Inl e \<Rightarrow> Inl e
              | Inr (arg, idx1) \<Rightarrow>
                  (case readArgumentsIntoArray p (drop (endArrayIdx + 1) argTypes)
                          typeTagString dv opts idx1 of
                     Inl e \<Rightarrow> Inl e
                   | Inr (arr, idx2) \<Rightarrow> Inr (JArray arg # arr, idx2))))
      else
        (case readArgument p argType typeTagString dv opts idx of
           Inl e \<Rightarrow> Inl e
         | Inr (arg, idx1) \<Rightarrow>
             (case readArgumentsIntoArray p argTypes typeTagString dv opts idx1 of
                Inl e \<Rightarrow> Inl e
              | Inr (arr, idx2) \<Rightarrow> Inr (arg # arr, idx2))))"
  by pat_completeness auto
termination
  by (relation "measure (\<lambda>(p, argTypes, typeTagString, dv, opts, idx). length argTypes)") auto

definition readArguments ::
  "platform \<Rightarrow> dataview \<Rightarrow> options option \<Rightarrow> nat \<Rightarrow> error + jsval list \<times> nat" where
  "readArguments p dv opts idx =
     (case readString p dv idx of
        (typeTagString, idx1) \<Rightarrow>
          (case typeTagString of
             [] \<Rightarrow> Inl (MalformedTypeTagString typeTagString)
           | c # argTypes \<Rightarrow>
               if c \<noteq> 0x2C then Inl (MalformedTypeTagString typeTagString)
               else readArgumentsIntoArray p argTypes typeTagString dv opts idx1))"

datatype packet =
    Message (address: jsstring) (args: jsval)
  | Bundle (timeTag: jsval) (packets: "packet list")

text \<open>
  \<^verbatim>\<open>osc.readMessageContents\<close>. With exactly one argument \<^verbatim>\<open>options.unpackSingleArgs\<close> is
  read, a TypeError when there is no options object.
\<close>

definition readMessageContents ::
  "platform \<Rightarrow> jsstring \<Rightarrow> dataview \<Rightarrow> options option \<Rightarrow> nat \<Rightarrow> error + packet \<times> nat" where
  "readMessageContents p addr dv opts idx =
     (if take 1 addr \<noteq> [0x2F] then Inl (MalformedAddress addr)
      else
        bind (readArguments p dv opts idx) (\<lambda>(args, idx1).
          if length args = 1 then
            (case opts of
               None \<Rightarrow> Inl TypeError
             | Some opt \<Rightarrow>
                 Inr (Message addr (if unpackSingleArgs opt then args ! 0 else JArray args), idx1))
          else Inr (Message addr (JArray args), idx1)))"

text \<open>\<^verbatim>\<open>osc.readMessage\<close>: the options default to \<^verbatim>\<open>osc.defaults\<close>.\<close>

definition readMessage :: "platform \<Rightarrow> dataview \<Rightarrow> options option \<Rightarrow> error + packet" where
  "readMessage p data opts =
     (let options = (case opts of None \<Rightarrow> defaults | Some opt \<Rightarrow> opt)
      in case readString p data 0 of
           (addr, idx) \<Rightarrow>
             bind (readMessageContents p addr data (Some options) idx) (\<lambda>(msg, idx1). Inr msg))"

text \<open>
  \<^verbatim>\<open>osc.readPacket\<close>, \<^verbatim>\<open>osc.readBundleContents\<close> and the loop of the latter call each
  other; the first argument bounds the depth of the calls and the number of loop rounds,
  and \<open>OutOfFuel\<close> says that the bound was reached. \<^verbatim>\<open>len\<close> is the index at which the
  enclosing bundle ends; below the top level it is computed from a size field of the input
  and may be any integer.
\<close>

fun readPacket ::
  "nat \<Rightarrow> platform \<Rightarrow> dataview \<Rightarrow> options option \<Rightarrow> nat \<Rightarrow> int \<Rightarrow> error + packet \<times> nat"
and readBundleContents ::
  "nat \<Rightarrow> platform \<Rightarrow> dataview \<Rightarrow> options option \<Rightarrow> nat \<Rightarrow> int \<Rightarrow> error + packet \<times> nat"
and readBundlePackets ::
  "nat \<Rightarrow> platform \<Rightarrow> dataview \<Rightarrow> options option \<Rightarrow> nat \<Rightarrow> int \<Rightarrow> error + packet list \<times> nat"
where
  "readPacket 0 p dv opts idx len = Inl OutOfFuel"
| "readPacket (Suc n) p dv opts idx len =
     (case readString p dv idx of
        (header, idx1) \<Rightarrow>
          if take 1 header = [0x23] then readBundleContents n p dv opts idx1 len
          else if take 1 header = [0x2F] then readMessageContents p header dv opts idx1
          else Inl (BadHeader header))"
| "readBundleContents 0 p dv opts idx len = Inl OutOfFuel"
| "readBundleContents (Suc n) p dv opts idx len =
     (case readTimeTag p dv idx of
        Inl e \<Rightarrow> Inl e
      | Inr (tt, idx1) \<Rightarrow>
          (case readBundlePackets n p dv opts idx1 len of
             Inl e \<Rightarrow> Inl e
           | Inr (pkts, idx2) \<Rightarrow> Inr (Bundle tt pkts, idx2)))"
| "readBundlePackets 0 p dv opts idx len = Inl OutOfFuel"
| "readBundlePackets (Suc n) p dv opts idx len =
     (if int idx < len then
        (case readInt32 dv idx of
           Inl e \<Rightarrow> Inl e
         | Inr (packetSize, idx1) \<Rightarrow>
             (case readPacket n p dv opts idx1 (int idx1 + packetSize) of
                Inl e \<Rightarrow> Inl e
              | Inr (packet, idx2) \<Rightarrow>
                  (case readBundlePackets n p dv opts idx2 len of
                     Inl e \<Rightarrow> Inl e
                   | Inr (pkts, idx3) \<Rightarrow> Inr (packet # pkts, idx3))))
      else Inr ([], idx))"

text \<open>
  \<^verbatim>\<open>osc.readPacket(data, options)\<close> as a caller uses it: from index 0, to the end of the
  view. The bound is never reached (\<open>decodePacket_terminates\<close> below): a nested packet
  starts at least thirteen bytes after the bundle holding it, and a loop round reads at
  least four bytes inside the view.
\<close>

definition decodePacket :: "platform \<Rightarrow> dataview \<Rightarrow> options option \<Rightarrow> error + packet" where
  "decodePacket p data opts =
     bind (readPacket (byteLength data + 3) p data opts 0 (int (byteLength data)))
       (\<lambda>(packet, idx). Inr packet)"

section \<open>The codec: writing\<close>

definition zeros :: "nat \<Rightarrow> byte list" where
  "zeros n = replicate n 0"

text \<open>
  \<^verbatim>\<open>osc.writeString\<close>: the encoding of the string and its terminator, all but the last byte
  of it copied into a zeroed array of the padded length. The array cannot be created when
  the padded length is negative, a RangeError; a byte stored past the end of the array is
  dropped.
\<close>

definition encodeString :: "platform \<Rightarrow> jsstring \<Rightarrow> byte list" where
  "encodeString p terminated =
     (case textEncoder p of Some encode \<Rightarrow> encode terminated | None \<Rightarrow> map ucast terminated)"

definition writeStringUnits :: "platform \<Rightarrow> jsstring \<Rightarrow> error + byte list" where
  "writeStringUnits p s =
     (let encodedStr = encodeString p (s @ [0]);
          len = length encodedStr;
          paddedLen = paddedLength len
      in if paddedLen < 0 then Inl RangeError
         else Inr (take (nat paddedLen)
                     (take (len - 1) encodedStr @ zeros (nat paddedLen - (len - 1)))))"

fun writeString :: "platform \<Rightarrow> jsval \<Rightarrow> error + byte list" where
  "writeString p (JStr s) = writeStringUnits p s"
| "writeString p v = Inl Unmodelled"

definition writeInt32 :: "jsval \<Rightarrow> error + byte list" where
  "writeInt32 val = bind (intOperand val) (\<lambda>r. Inr (be32 (toInt32 r)))"

text \<open>
  \<^verbatim>\<open>osc.writeInt64\<close> reads \<^verbatim>\<open>val.high\<close> and \<^verbatim>\<open>val.low\<close>; each half is written into an array
  of its own and copied into the result.
\<close>

definition writeInt64 :: "jsval \<Rightarrow> error + byte list" where
  "writeInt64 val =
     bind (getProp val ''high'') (\<lambda>high.
     bind (writeInt32 high) (\<lambda>hi.
     bind (getProp val ''low'') (\<lambda>low.
     bind (writeInt32 low) (\<lambda>lo. Inr (hi @ lo)))))"

definition writeFloat32 :: "platform \<Rightarrow> jsval \<Rightarrow> error + byte list" where
  "writeFloat32 p val = bind (floatOperand val) (\<lambda>r. Inr (be32 (setFloat32 p r)))"

definition writeFloat64 :: "platform \<Rightarrow> jsval \<Rightarrow> error + byte list" where
  "writeFloat64 p val = bind (floatOperand val) (\<lambda>r. Inr (be64 (setFloat64 p r)))"

text \<open>
  \<^verbatim>\<open>osc.writeChar32\<close>: the first code unit, or NaN (stored as 0) for the empty string; a
  value without \<^verbatim>\<open>charCodeAt\<close> is a TypeError.
\<close>

fun writeChar32 :: "jsval \<Rightarrow> error + byte list" where
  "writeChar32 (JStr []) = Inr (be32 0)"
| "writeChar32 (JStr (c # cs)) = Inr (be32 (ucast c))"
| "writeChar32 v = Inl TypeError"

text \<open>\<^verbatim>\<open>osc.byteArray\<close>.\<close>

fun byteArray :: "jsval \<Rightarrow> error + byte list" where
  "byteArray (JUint8Array bs) = Inr bs"
| "byteArray (JArrayBuffer bs) = Inr bs"
| "byteArray JUndefined = Inl TypeError"
| "byteArray JNull = Inl TypeError"
| "byteArray (JStr s) = Inl CantWrap"
| "byteArray (JNum r) = Inl CantWrap"
| "byteArray (JBool b) = Inl CantWrap"
| "byteArray JFunction = Inl Unmodelled"
| "byteArray (JArray vs) = Inl Unmodelled"
| "byteArray (JObject fs) =
     (if map_of fs ''buffer'' = None \<and> map_of fs ''length'' = None then Inl CantWrap
      else Inl Unmodelled)"

text \<open>
  \<^verbatim>\<open>osc.writeBlob\<close>. Three of its steps can throw a RangeError: the creation of the array
  when \<^verbatim>\<open>blobLen\<close> is negative, \<^verbatim>\<open>osc.writeInt32(len, dv)\<close> when the array is shorter than
  four bytes, and \<^verbatim>\<open>arr.set(data, offset)\<close> when the data do not fit behind the length.
\<close>

definition writeBlob :: "jsval \<Rightarrow> error + byte list" where
  "writeBlob data =
     bind (byteArray data) (\<lambda>bytes.
       let len = length bytes;
           paddedLen = paddedLength len;
           blobLen = paddedLen + 4
       in if blobLen < 0 then Inl RangeError
          else if blobLen < 4 then Inl RangeError
          else if blobLen < 4 + int len then Inl RangeError
          else Inr (be32 (toInt32 (of_nat len)) @ bytes @ zeros (nat blobLen - 4 - len)))"

text \<open>\<^verbatim>\<open>arr.set(bytes)\<close> on an array of four bytes throws when \<^verbatim>\<open>bytes\<close> is longer.\<close>

definition writeMIDIBytes :: "jsval \<Rightarrow> error + byte list" where
  "writeMIDIBytes v =
     bind (byteArray v) (\<lambda>bytes.
       if length bytes \<le> 4 then Inr (bytes @ zeros (4 - length bytes)) else Inl RangeError)"

definition colorChannel :: "jsval \<Rightarrow> string \<Rightarrow> error + real" where
  "colorChannel color k = bind (getProp color k) intOperand"

definition writeColor :: "jsval \<Rightarrow> error + byte list" where
  "writeColor color =
     bind (getProp color ''a'') (\<lambda>a.
     bind (floatOperand a) (\<lambda>a1.
     bind (colorChannel color ''r'') (\<lambda>r.
     bind (colorChannel color ''g'') (\<lambda>g.
     bind (colorChannel color ''b'') (\<lambda>b.
       Inr [toUint8 r, toUint8 g, toUint8 b, toUint8 (Math_round (a1 * 255))])))))"

text \<open>
  \<^verbatim>\<open>osc.writeTimeTag\<close>: the raw pair when there is one, else the conversion of
  \<^verbatim>\<open>timeTag.native\<close>; both halves stored with \<^verbatim>\<open>setInt32\<close>. A missing element of the pair
  and a missing \<^verbatim>\<open>native\<close> are \<^verbatim>\<open>undefined\<close>, stored as 0.
\<close>

fun rawPair :: "jsval \<Rightarrow> error + jsval \<times> jsval" where
  "rawPair (JArray []) = Inr (JUndefined, JUndefined)"
| "rawPair (JArray [a]) = Inr (a, JUndefined)"
| "rawPair (JArray (a # b # vs)) = Inr (a, b)"
| "rawPair v = Inl Unmodelled"

fun nativePair :: "jsval \<Rightarrow> error + jsval \<times> jsval" where
  "nativePair (JNum t) = (case jsToNTPTime t of (ntpSecs, ntpFracs) \<Rightarrow> Inr (JNum ntpSecs, JNum ntpFracs))"
| "nativePair JUndefined = Inr (JUndefined, JUndefined)"
| "nativePair v = Inl Unmodelled"

definition writeTimeTag :: "jsval \<Rightarrow> error + byte list" where
  "writeTimeTag tt =
     bind (getProp tt ''raw'') (\<lambda>raw.
     bind (if truthy raw then rawPair raw else bind (getProp tt ''native'') nativePair) (\<lambda>(a, b).
     bind (writeInt32 a) (\<lambda>hi.
     bind (writeInt32 b) (\<lambda>lo. Inr (hi @ lo)))))"

text \<open>
  \<^verbatim>\<open>osc.argumentTypes\<close>, writer side: \<open>None\<close> when the character is not a key of the
  table, \<open>Some None\<close> for the four tags without a writer.
\<close>

definition argumentWriter :: "platform \<Rightarrow> 16 word \<Rightarrow> (jsval \<Rightarrow> error + byte list) option option" where
  "argumentWriter p t =
     (if t = 0x69 then Some (Some writeInt32)
      else if t = 0x68 then Some (Some writeInt64)
      else if t = 0x66 then Some (Some (writeFloat32 p))
      else if t = 0x73 then Some (Some (writeString p))
      else if t = 0x53 then Some (Some (writeString p))
      else if t = 0x62 then Some (Some writeBlob)
      else if t = 0x74 then Some (Some writeTimeTag)
      else if t = 0x54 then Some None
      else if t = 0x46 then Some None
      else if t = 0x4E then Some None
      else if t = 0x49 then Some None
      else if t = 0x64 then Some (Some (writeFloat64 p))
      else if t = 0x63 then Some (Some writeChar32)
      else if t = 0x72 then Some (Some writeColor)
      else if t = 0x6D then Some (Some writeMIDIBytes)
      else None)"

record dataCollection =
  dcByteLength :: nat
  parts :: "byte list list"

definition emptyCollection :: dataCollection where
  "emptyCollection = \<lparr>dcByteLength = 0, parts = []\<rparr>"

definition addDataPart :: "byte list \<Rightarrow> dataCollection \<Rightarrow> dataCollection" where
  "addDataPart dataPart dc =
     dc\<lparr>parts := parts dc @ [dataPart], dcByteLength := dcByteLength dc + length dataPart\<rparr>"

text \<open>
  \<^verbatim>\<open>osc.joinParts\<close> copies the parts one after the other into an array of \<^verbatim>\<open>byteLength\<close>
  zero bytes; a part that does not fit is a RangeError of \<^verbatim>\<open>target.set\<close>.
\<close>

definition joinParts :: "dataCollection \<Rightarrow> error + byte list" where
  "joinParts dc =
     (let bytes = concat (parts dc)
      in if length bytes \<le> dcByteLength dc then Inr (bytes @ zeros (dcByteLength dc - length bytes))
         else Inl RangeError)"

text \<open>
  \<^verbatim>\<open>osc.writeArgument\<close> and \<^verbatim>\<open>osc.writeArrayArguments\<close>; \<open>writeArgumentList\<close> is the loop
  over the elements, which \<^verbatim>\<open>osc.collectArguments\<close> runs as well. Each returns the type
  tags it produced and the collection with the data parts appended. An argument that is
  not an array has its \<^verbatim>\<open>type\<close> looked up in \<^verbatim>\<open>osc.argumentTypes\<close>; a missing entry is the
  TypeError of \<^verbatim>\<open>undefined.writer\<close>. (Type names of several characters, which may hit
  inherited properties of the table, are left out.)
\<close>

fun writeArgument :: "platform \<Rightarrow> jsval \<Rightarrow> dataCollection \<Rightarrow> error + jsstring \<times> dataCollection"
and writeArgumentList ::
  "platform \<Rightarrow> jsval list \<Rightarrow> dataCollection \<Rightarrow> error + jsstring \<times> dataCollection"
where
  "writeArgument p (JArray vs) dc =
     (case writeArgumentList p vs dc of
        Inl e \<Rightarrow> Inl e
      | Inr (typeTag, dc1) \<Rightarrow> Inr ([0x5B] @ typeTag @ [0x5D], dc1))"
| "writeArgument p JUndefined dc = Inl TypeError"
| "writeArgument p JNull dc = Inl TypeError"
| "writeArgument p (JObject fs) dc =
     (let type = (case map_of fs ''type'' of None \<Rightarrow> JUndefined | Some t \<Rightarrow> t);
          val = (case map_of fs ''value'' of None \<Rightarrow> JUndefined | Some v \<Rightarrow> v)
      in case type of
           JStr [t] \<Rightarrow>
             (case argumentWriter p t of
                None \<Rightarrow> Inl TypeError
              | Some None \<Rightarrow> Inr ([t], dc)
              | Some (Some writer) \<Rightarrow>
                  (case writer val of
                     Inl e \<Rightarrow> Inl e
                   | Inr data \<Rightarrow> Inr ([t], addDataPart data dc)))
         | JStr t \<Rightarrow> Inl Unmodelled
         | JUndefined \<Rightarrow> Inl TypeError
         | JNull \<Rightarrow> Inl TypeError
         | JBool b \<Rightarrow> Inl TypeError
         | JNum r \<Rightarrow> Inl TypeError
         | _ \<Rightarrow> Inl Unmodelled)"
| "writeArgument p v dc = Inl TypeError"
| "writeArgumentList p [] dc = Inr ([], dc)"
| "writeArgumentList p (v # vs) dc =
     (case writeArgument p v dc of
        Inl e \<Rightarrow> Inl e
      | Inr (t, dc1) \<Rightarrow>
          (case writeArgumentList p vs dc1 of
             Inl e \<Rightarrow> Inl e
           | Inr (ts, dc2) \<Rightarrow> Inr (t @ ts, dc2)))"

text \<open>\<^verbatim>\<open>osc.inferTypeForArgument\<close>.\<close>

fun inferTypeForArgument :: "jsval \<Rightarrow> error + jsstring" where
  "inferTypeForArgument (JBool b) = Inr (if b then [0x54] else [0x46])"
| "inferTypeForArgument (JStr s) = Inr [0x73]"
| "inferTypeForArgument (JNum r) = Inr [0x66]"
| "inferTypeForArgument JUndefined = Inr [0x4E]"
| "inferTypeForArgument JNull = Inr [0x4E]"
| "inferTypeForArgument (JUint8Array bs) = Inr [0x62]"
| "inferTypeForArgument (JArrayBuffer bs) = Inr [0x62]"
| "inferTypeForArgument (JObject fs) =
     (if (case map_of fs ''high'' of Some (JNum h) \<Rightarrow> True | _ \<Rightarrow> False) \<and>
         (case map_of fs ''low'' of Some (JNum l) \<Rightarrow> True | _ \<Rightarrow> False)
      then Inr [0x68] else Inl (CantInferType (JObject fs)))"
| "inferTypeForArgument v = Inl (CantInferType v)"

text \<open>
  \<^verbatim>\<open>osc.annotateArguments\<close>. The first test reads \<^verbatim>\<open>arg.type\<close> of every value whose
  \<^verbatim>\<open>typeof\<close> is \<^verbatim>\<open>"object"\<close>, \<^verbatim>\<open>null\<close> included.
\<close>

fun annotateArgument :: "jsval \<Rightarrow> error + jsval"
and annotateArguments :: "jsval list \<Rightarrow> error + jsval list"
where
  "annotateArgument JNull = Inl TypeError"
| "annotateArgument (JArray vs) =
     (case annotateArguments vs of Inl e \<Rightarrow> Inl e | Inr annotated \<Rightarrow> Inr (JArray annotated))"
| "annotateArgument (JObject fs) =
     (if truthy (case map_of fs ''type'' of None \<Rightarrow> JUndefined | Some t \<Rightarrow> t) \<and>
         (case map_of fs ''value'' of None \<Rightarrow> JUndefined | Some v \<Rightarrow> v) \<noteq> JUndefined
      then Inr (JObject fs)
      else (case inferTypeForArgument (JObject fs) of
              Inl e \<Rightarrow> Inl e
            | Inr oscType \<Rightarrow> Inr (JObject [(''type'', JStr oscType), (''value'', JObject fs)])))"
| "annotateArgument v =
     (case inferTypeForArgument v of
        Inl e \<Rightarrow> Inl e
      | Inr oscType \<Rightarrow> Inr (JObject [(''type'', JStr oscType), (''value'', v)]))"
| "annotateArguments [] = Inr []"
| "annotateArguments (v # vs) =
     (case annotateArgument v of
        Inl e \<Rightarrow> Inl e
      | Inr msgArg \<Rightarrow>
          (case annotateArguments vs of
             Inl e \<Rightarrow> Inl e
           | Inr annotated \<Rightarrow> Inr (msgArg # annotated)))"

text \<open>
  \<^verbatim>\<open>osc.collectArguments\<close>: the type tag string is spliced in before the data parts of the
  arguments.
\<close>

definition collectArguments ::
  "platform \<Rightarrow> jsval \<Rightarrow> options \<Rightarrow> dataCollection \<Rightarrow> error + dataCollection" where
  "collectArguments p argv opt dc =
     (let args1 = (case argv of JArray vs \<Rightarrow> vs | JUndefined \<Rightarrow> [] | v \<Rightarrow> [v])
      in bind (if metadata opt then Inr args1 else annotateArguments args1) (\<lambda>args2.
           let currPartIdx = length (parts dc)
           in bind (writeArgumentList p args2 dc) (\<lambda>(typeTags, dc1).
                bind (writeStringUnits p ([0x2C] @ typeTags)) (\<lambda>typeData.
                  Inr (dc1\<lparr>dcByteLength := dcByteLength dc1 + length typeData,
                             parts := take currPartIdx (parts dc1) @ [typeData] @
                                      drop currPartIdx (parts dc1)\<rparr>)))))"

definition collectMessageParts ::
  "platform \<Rightarrow> jsstring \<Rightarrow> jsval \<Rightarrow> options \<Rightarrow> error + dataCollection" where
  "collectMessageParts p addr argv opt =
     bind (writeStringUnits p addr) (\<lambda>addressData.
       collectArguments p argv opt (addDataPart addressData emptyCollection))"

definition isValidMessage :: "packet \<Rightarrow> bool" where
  "isValidMessage msg = (case msg of Message addr argv \<Rightarrow> take 1 addr = [0x2F] | Bundle tt ps \<Rightarrow> False)"

definition isValidBundle :: "packet \<Rightarrow> bool" where
  "isValidBundle bundle = (case bundle of Message addr argv \<Rightarrow> False | Bundle tt ps \<Rightarrow> tt \<noteq> JUndefined)"

text \<open>
  \<^verbatim>\<open>osc.collectBundlePackets\<close>. An element with a truthy \<^verbatim>\<open>address\<close> is collected as a
  message, any other as a bundle; for a message with the empty address that ends in the
  TypeError of \<^verbatim>\<open>osc.writeTimeTag(undefined)\<close>.
\<close>

fun collectBundlePackets :: "platform \<Rightarrow> packet \<Rightarrow> options \<Rightarrow> error + dataCollection"
and collectPackets ::
  "platform \<Rightarrow> packet list \<Rightarrow> options \<Rightarrow> dataCollection \<Rightarrow> error + dataCollection"
where
  "collectBundlePackets p (Message addr argv) opt = Inl TypeError"
| "collectBundlePackets p (Bundle tt ps) opt =
     (case writeStringUnits p (str ''#bundle'') of
        Inl e \<Rightarrow> Inl e
      | Inr header \<Rightarrow>
          (case writeTimeTag tt of
             Inl e \<Rightarrow> Inl e
           | Inr ttBytes \<Rightarrow>
               collectPackets p ps opt
                 (addDataPart ttBytes (addDataPart header emptyCollection))))"
| "collectPackets p [] opt dc = Inr dc"
| "collectPackets p (packet # ps) opt dc =
     (case (case packet of
              Message addr argv \<Rightarrow>
                if addr \<noteq> [] then collectMessageParts p addr argv opt
                else collectBundlePackets p packet opt
            | Bundle tt qs \<Rightarrow> collectBundlePackets p packet opt) of
        Inl e \<Rightarrow> Inl e
      | Inr packetCollection \<Rightarrow>
          (let dc1 = dc\<lparr>dcByteLength := dcByteLength dc + dcByteLength packetCollection\<rparr>;
               dc2 = addDataPart (be32 (toInt32 (of_nat (dcByteLength packetCollection)))) dc1;
               dc3 = dc2\<lparr>parts := parts dc2 @ parts packetCollection\<rparr>
           in collectPackets p ps opt dc3))"

definition writeMessage :: "platform \<Rightarrow> packet \<Rightarrow> options option \<Rightarrow> error + byte list" where
  "writeMessage p msg opts =
     (let options = (case opts of None \<Rightarrow> defaults | Some opt \<Rightarrow> opt)
      in if \<not> isValidMessage msg then Inl InvalidMessage
         else bind (collectMessageParts p (address msg) (args msg) options) joinParts)"

definition writeBundle :: "platform \<Rightarrow> packet \<Rightarrow> options option \<Rightarrow> error + byte list" where
  "writeBundle p bundle opts =
     (if \<not> isValidBundle bundle then Inl InvalidBundle
      else let options = (case opts of None \<Rightarrow> defaults | Some opt \<Rightarrow> opt)
           in bind (collectBundlePackets p bundle options) joinParts)"

definition writePacket :: "platform \<Rightarrow> packet \<Rightarrow> options option \<Rightarrow> error + byte list" where
  "writePacket p packet opts =
     (if isValidMessage packet then writeMessage p packet opts
      else if isValidBundle packet then writeBundle p packet opts
      else Inl UnrecognizedPacket)"

section \<open>The orchestrator \<^verbatim>\<open>ScsynthOSC\<close>\<close>

text \<open>
  The state of a \<^verbatim>\<open>ScsynthOSC\<close> object, with what it has done to the outside: the messages
  posted to the workers, in order, the lines written to the console, and the calls made to
  the observers. \<open>callbacks\<close> holds the observers that are registered (the others are
  \<^verbatim>\<open>null\<close>); a registered observer returns normally.
\<close>

datatype worker = OscOut | OscIn | DebugWorker

datatype workerMessage =
    MsgInit
  | MsgStart
  | MsgStop
  | MsgSend "byte list" int jsstring "real option"
  | MsgSendImmediate "byte list"
  | MsgCancelEditorTag int jsstring
  | MsgCancelEditor int
  | MsgCancelAll
  | MsgClear

datatype callback = OnOSCMessage | OnDebugMessage | OnError | OnInitialized

datatype notification = NotifyInitialized | NotifyError error

record scsynthOSC =
  workers :: "worker set"
  initialized :: bool
  posted :: "(worker \<times> workerMessage) list"
  console :: "string list"
  callbacks :: "callback set"
  notified :: "notification list"

record sendOptions =
  editorId :: "int option"
  runTag :: "jsstring option"
  waitTimeMs :: "real option"

definition noOptions :: sendOptions where
  "noOptions = \<lparr>editorId = None, runTag = None, waitTimeMs = None\<rparr>"

text \<open>The constructor.\<close>

definition newScsynthOSC :: scsynthOSC where
  "newScsynthOSC =
     \<lparr>workers = {}, initialized = False, posted = [], console = [], callbacks = {}, notified = []\<rparr>"

text \<open>The setters \<^verbatim>\<open>onError(callback)\<close> and \<^verbatim>\<open>onInitialized(callback)\<close>.\<close>

definition onError :: "scsynthOSC \<Rightarrow> scsynthOSC" where
  "onError s = s\<lparr>callbacks := insert OnError (callbacks s)\<rparr>"

definition onInitialized :: "scsynthOSC \<Rightarrow> scsynthOSC" where
  "onInitialized s = s\<lparr>callbacks := insert OnInitialized (callbacks s)\<rparr>"

text \<open>\<^verbatim>\<open>worker.postMessage\<close>; on a worker slot that is \<^verbatim>\<open>null\<close> it is a TypeError.\<close>

definition postMessage :: "worker \<Rightarrow> workerMessage \<Rightarrow> scsynthOSC \<Rightarrow> error + scsynthOSC" where
  "postMessage w m s =
     (if w \<in> workers s then Inr (s\<lparr>posted := posted s @ [(w, m)]\<rparr>) else Inl TypeError)"

text \<open>
  \<^verbatim>\<open>ScsynthOSC.initWorker\<close>: the promise of one handshake. \<open>ack\<close> is the time, in
  milliseconds after the call, at which the \<^verbatim>\<open>initialized\<close> message of the worker is
  handled, if it ever is. The handler fulfils the promise and clears the timer; the timer,
  set for 5000 ms, rejects the promise when the message has not been handled before it
  fires. Timers fire on time. The result says when and how the promise settles.
\<close>

datatype settlement = Fulfilled real | Rejected real error

definition initWorker :: "string \<Rightarrow> real option \<Rightarrow> settlement" where
  "initWorker name ack =
     (case ack of
        Some t \<Rightarrow> if t < 5000 then Fulfilled t else Rejected 5000 (WorkerInitTimeout name)
      | None \<Rightarrow> Rejected 5000 (WorkerInitTimeout name))"

text \<open>
  \<^verbatim>\<open>Promise.all\<close> is rejected with the reason of the promise that is rejected first, and of
  two that are rejected at the same time with the reason of the one listed first (their
  timers were set in that order); it is fulfilled when no promise is rejected.
\<close>

fun firstRejection :: "settlement list \<Rightarrow> (real \<times> error) option" where
  "firstRejection [] = None"
| "firstRejection (Fulfilled t # ps) = firstRejection ps"
| "firstRejection (Rejected t e # ps) =
     (case firstRejection ps of
        None \<Rightarrow> Some (t, e)
      | Some (t1, e1) \<Rightarrow> if t1 < t then Some (t1, e1) else Some (t, e))"

definition promiseAll :: "settlement list \<Rightarrow> error option" where
  "promiseAll ps = map_option snd (firstRejection ps)"

text \<open>
  \<^verbatim>\<open>ScsynthOSC.init\<close>, its sequential part: the three workers are created and sent
  \<^verbatim>\<open>init\<close>; \<open>outcome\<close> is how \<^verbatim>\<open>Promise.all\<close> over the three handshakes settles
  (\<open>None\<close>: fulfilled, \<open>Some e\<close>: rejected with  \<open>e\<close>). The result pairs the state with the
  exception rethrown to the caller, if any.
\<close>

definition init :: "scsynthOSC \<Rightarrow> error option \<Rightarrow> scsynthOSC \<times> error option" where
  "init s outcome =
     (if initialized s then (s\<lparr>console := console s @ [''[ScsynthOSC] Already initialized'']\<rparr>, None)
      else
        let s1 = s\<lparr>workers := {OscOut, OscIn, DebugWorker},
                   posted := posted s @ [(OscOut, MsgInit), (OscIn, MsgInit), (DebugWorker, MsgInit)]\<rparr>
        in case outcome of
             None \<Rightarrow>
               (s1\<lparr>posted := posted s1 @ [(OscIn, MsgStart), (DebugWorker, MsgStart)],
                   initialized := True,
                   notified := notified s1 @
                     (if OnInitialized \<in> callbacks s1 then [NotifyInitialized] else [])\<rparr>, None)
           | Some e \<Rightarrow>
               (s1\<lparr>console := console s1 @ [''[ScsynthOSC] Initialization failed:''],
                   notified := notified s1 @
                     (if OnError \<in> callbacks s1 then [NotifyError e] else [])\<rparr>, Some e))"

text \<open>
  \<^verbatim>\<open>ScsynthOSC.init\<close> as a whole, given when each worker acknowledges: the three
  handshakes are started one after the other in the same turn and awaited together.
\<close>

definition initialize ::
  "scsynthOSC \<Rightarrow> real option \<Rightarrow> real option \<Rightarrow> real option \<Rightarrow> scsynthOSC \<times> error option" where
  "initialize s ackOut ackIn ackDebug =
     init s (promiseAll [initWorker ''OSC OUT'' ackOut, initWorker ''OSC IN'' ackIn,
                         initWorker ''DEBUG'' ackDebug])"

text \<open>\<^verbatim>\<open>ScsynthOSC.send\<close>.\<close>

definition send :: "scsynthOSC \<Rightarrow> byte list \<Rightarrow> sendOptions \<Rightarrow> error + scsynthOSC" where
  "send s oscData opts =
     (if \<not> initialized s then Inr (s\<lparr>console := console s @ [''[ScsynthOSC] Not initialized'']\<rparr>)
      else postMessage OscOut
             (MsgSend oscData
                (case editorId opts of None \<Rightarrow> 0 | Some e \<Rightarrow> e)
                (case runTag opts of None \<Rightarrow> [] | Some t \<Rightarrow> t)
                (waitTimeMs opts)) s)"

definition sendImmediate :: "scsynthOSC \<Rightarrow> byte list \<Rightarrow> error + scsynthOSC" where
  "sendImmediate s oscData =
     (if \<not> initialized s then Inr (s\<lparr>console := console s @ [''[ScsynthOSC] Not initialized'']\<rparr>)
      else postMessage OscOut (MsgSendImmediate oscData) s)"

definition cancelEditorTag :: "scsynthOSC \<Rightarrow> int \<Rightarrow> jsstring \<Rightarrow> error + scsynthOSC" where
  "cancelEditorTag s ed tag =
     (if \<not> initialized s then Inr s else postMessage OscOut (MsgCancelEditorTag ed tag) s)"

definition cancelEditor :: "scsynthOSC \<Rightarrow> int \<Rightarrow> error + scsynthOSC" where
  "cancelEditor s ed =
     (if \<not> initialized s then Inr s else postMessage OscOut (MsgCancelEditor ed) s)"

definition cancelAll :: "scsynthOSC \<Rightarrow> error + scsynthOSC" where
  "cancelAll s = (if \<not> initialized s then Inr s else postMessage OscOut MsgCancelAll s)"

definition clearDebug :: "scsynthOSC \<Rightarrow> error + scsynthOSC" where
  "clearDebug s = (if \<not> initialized s then Inr s else postMessage DebugWorker MsgClear s)"

text \<open>\<^verbatim>\<open>ScsynthOSC.terminate\<close>: every worker that exists is told to stop, in the order of the code.\<close>

definition terminate :: "scsynthOSC \<Rightarrow> scsynthOSC" where
  "terminate s =
     s\<lparr>posted := posted s @ map (\<lambda>w. (w, MsgStop)) (filter (\<lambda>w. w \<in> workers s) [OscOut, OscIn, DebugWorker]),
       workers := {},
       initialized := False,
       console := console s @ [''[ScsynthOSC] All workers terminated'']\<rparr>"

section \<open>The front end \<^verbatim>\<open>SuperSonic\<close>\<close>

datatype audioContextState = Suspended | Running | Closed

text \<open>
  The fields of a \<^verbatim>\<open>SuperSonic\<close> object that sending and the clock offset use.
  \<open>resolveTimeOffset\<close> says whether \<^verbatim>\<open>_resolveTimeOffset\<close> still holds the resolver of
  \<^verbatim>\<open>_timeOffsetPromise\<close>, and \<open>timeOffsetPromise\<close> is the value the promise was resolved
  with, if it was. The two clocks, \<^verbatim>\<open>audioContext.currentTime\<close> (seconds) and
  \<^verbatim>\<open>Date.now()\<close> (milliseconds), are read once per call and passed in.
\<close>

record clocks =
  currentTime :: real
  dateNowMs :: real

record superSonic =
  ssInitialized :: bool
  osc :: "scsynthOSC option"
  audioContext :: "audioContextState option"
  wasmTimeOffset :: "real option"
  resolveTimeOffset :: bool
  timeOffsetPromise :: "real option"
  messagesSent :: nat
  ssConsole :: "string list"

definition newSuperSonic :: superSonic where
  "newSuperSonic =
     \<lparr>ssInitialized = False, osc = None, audioContext = None, wasmTimeOffset = None,
      resolveTimeOffset = False, timeOffsetPromise = None, messagesSent = 0, ssConsole = []\<rparr>"

text \<open>\<^verbatim>\<open>SuperSonic.#calculateTimeOffset\<close>.\<close>

definition calculateTimeOffset :: "superSonic \<Rightarrow> clocks \<Rightarrow> superSonic" where
  "calculateTimeOffset s clk =
     (let SECONDS_1900_TO_1970 = 2208988800;
          audioContextTime = currentTime clk;
          unixSeconds = dateNowMs clk / 1000;
          offset = SECONDS_1900_TO_1970 + unixSeconds - audioContextTime;
          s1 = s\<lparr>wasmTimeOffset := Some offset\<rparr>
      in if resolveTimeOffset s1
         then s1\<lparr>timeOffsetPromise := Some offset, resolveTimeOffset := False\<rparr>
         else s1)"

text \<open>
  \<^verbatim>\<open>SuperSonic.#initializeAudioContext\<close>, given the state in which the platform creates the
  context, and the \<^verbatim>\<open>statechange\<close> listener it registers, run when the context has moved
  to a new state.
\<close>

definition initializeAudioContext :: "superSonic \<Rightarrow> audioContextState \<Rightarrow> clocks \<Rightarrow> superSonic" where
  "initializeAudioContext s st clk =
     (let s1 = s\<lparr>audioContext := Some st, timeOffsetPromise := None, resolveTimeOffset := True\<rparr>
      in if st = Running then calculateTimeOffset s1 clk else s1)"

definition statechange :: "superSonic \<Rightarrow> audioContextState \<Rightarrow> clocks \<Rightarrow> superSonic" where
  "statechange s st clk =
     (let s1 = s\<lparr>audioContext := Some st\<rparr>
      in if st = Running \<and> resolveTimeOffset s1 then calculateTimeOffset s1 clk else s1)"

text \<open>
  The scheduling part of \<^verbatim>\<open>SuperSonic.sendOSC\<close>: the state after it and the \<^verbatim>\<open>waitTimeMs\<close>
  it passes on (\<open>None\<close> for \<^verbatim>\<open>null\<close>).
\<close>

definition bundleHeader :: "byte list" where
  "bundleHeader = [0x23, 0x62, 0x75, 0x6E, 0x64, 0x6C, 0x65, 0x00]"

definition computeWaitTime :: "superSonic \<Rightarrow> clocks \<Rightarrow> byte list \<Rightarrow> superSonic \<times> real option" where
  "computeWaitTime s clk uint8Data =
     (if length uint8Data \<ge> 16 then
        (let header = take 8 uint8Data
         in if header = bundleHeader then
              (let s1 = (if wasmTimeOffset s = None
                         then calculateTimeOffset
                                (s\<lparr>ssConsole := ssConsole s @
                                     [''[SuperSonic] Time offset not yet calculated, calculating now'']\<rparr>) clk
                         else s);
                   ntpSeconds = word32 (take 4 (drop 8 uint8Data));
                   ntpFraction = word32 (take 4 (drop 12 uint8Data))
               in if \<not> (ntpSeconds = 0 \<and> (ntpFraction = 0 \<or> ntpFraction = 1)) then
                    (let ntpTimeS = of_nat (unat ntpSeconds) + of_nat (unat ntpFraction) / 4294967296;
                         audioTimeS = ntpTimeS - (case wasmTimeOffset s1 of None \<Rightarrow> 0 | Some offset \<Rightarrow> offset);
                         currentAudioTimeS = currentTime clk;
                         latencyS = 0.05
                     in (s1, Some ((audioTimeS - currentAudioTimeS - latencyS) * 1000)))
                  else (s1, None))
            else (s, None))
      else (s, None))"

text \<open>
  \<^verbatim>\<open>SuperSonic.sendOSC\<close>. The result is the exception thrown, or the new state; what
  reached the outbound worker is in \<open>posted\<close> of its orchestrator.
\<close>

definition sendOSC :: "superSonic \<Rightarrow> clocks \<Rightarrow> jsval \<Rightarrow> sendOptions \<Rightarrow> error + superSonic" where
  "sendOSC s clk oscData opts =
     (if \<not> ssInitialized s then Inl NotInitialized
      else
        bind (case oscData of
                JArrayBuffer bs \<Rightarrow> Inr bs
              | JUint8Array bs \<Rightarrow> Inr bs
              | _ \<Rightarrow> Inl BadOscData) (\<lambda>uint8Data.
          let s1 = s\<lparr>messagesSent := messagesSent s + 1\<rparr>
          in case computeWaitTime s1 clk uint8Data of
               (s2, wait) \<Rightarrow>
                 (case osc s2 of
                    None \<Rightarrow> Inl TypeError
                  | Some orchestrator \<Rightarrow>
                      bind (send orchestrator uint8Data (opts\<lparr>waitTimeMs := wait\<rparr>))
                        (\<lambda>o1. Inr (s2\<lparr>osc := Some o1\<rparr>)))))"

text \<open>\<^verbatim>\<open>SuperSonic.send\<close>: the typing of the native arguments, the encoding, the hand-over.\<close>

fun sendArg :: "jsval \<Rightarrow> error + jsval" where
  "sendArg (JStr a) = Inr (JObject [(''type'', JStr (str ''s'')), (''value'', JStr a)])"
| "sendArg (JNum a) =
     Inr (JObject [(''type'', JStr (if a = of_int \<lfloor>a\<rfloor> then str ''i'' else str ''f'')),
                   (''value'', JNum a)])"
| "sendArg (JUint8Array a) = Inr (JObject [(''type'', JStr (str ''b'')), (''value'', JUint8Array a)])"
| "sendArg (JArrayBuffer a) = Inr (JObject [(''type'', JStr (str ''b'')), (''value'', JUint8Array a)])"
| "sendArg a = Inl UnsupportedArgument"

fun sendArgs :: "jsval list \<Rightarrow> error + jsval list" where
  "sendArgs [] = Inr []"
| "sendArgs (a # as) =
     bind (sendArg a) (\<lambda>oscArg. bind (sendArgs as) (\<lambda>oscArgs. Inr (oscArg # oscArgs)))"

definition superSonicSend ::
  "platform \<Rightarrow> superSonic \<Rightarrow> clocks \<Rightarrow> jsstring \<Rightarrow> jsval list \<Rightarrow> error + superSonic" where
  "superSonicSend p s clk addr argv =
     (if \<not> ssInitialized s then Inl NotInitialized
      else
        bind (sendArgs argv) (\<lambda>oscArgs.
        bind (writePacket p (Message addr (JArray oscArgs)) None) (\<lambda>oscData.
          sendOSC s clk (JUint8Array oscData) noOptions)))"

text \<open>\<^verbatim>\<open>SuperSonic.destroy\<close>: the orchestrator is terminated and dropped.\<close>

definition destroy :: "superSonic \<Rightarrow> superSonic" where
  "destroy s =
     s\<lparr>osc := None, audioContext := None, ssInitialized := False,
       ssConsole := ssConsole s @ [''[SuperSonic] Destroying...'', ''[SuperSonic] Destroyed'']\<rparr>"

section \<open>A platform for the examples\<close>

text \<open>
  A platform without \<^verbatim>\<open>TextEncoder\<close> and \<^verbatim>\<open>TextDecoder\<close>, with the clock at 0. Its float
  conversions are placeholders: the examples evaluated on it read and write no float.
\<close>

definition examplePlatform :: platform where
  "examplePlatform =
     \<lparr>dateNow = 0, textEncoder = None, textDecoder = None,
      getFloat32 = (\<lambda>w. 0), setFloat32 = (\<lambda>r. 0), getFloat64 = (\<lambda>w. 0), setFloat64 = (\<lambda>r. 0)\<rparr>"

text \<open>An orchestrator after a successful \<^verbatim>\<open>init\<close>, and a front end that is ready and holds an offset.\<close>

definition readyOrchestrator :: scsynthOSC where
  "readyOrchestrator = fst (init newScsynthOSC None)"

definition readySuperSonic :: superSonic where
  "readySuperSonic =
     newSuperSonic\<lparr>ssInitialized := True, osc := Some readyOrchestrator,
                   audioContext := Some Running, wasmTimeOffset := Some 2208988800\<rparr>"

section \<open>Typed packets\<close>

text \<open>
  The packets of the data model, with every argument carrying its wire type: fifteen kinds
  of scalar, and arrays of scalars. \<open>jsPacket now\<close> is the JavaScript value that stands for
  such a packet when the codec works with type metadata: each scalar is a
  \<^verbatim>\<open>{type, value}\<close> pair with the value in the shape the readers return it (a 32-bit
  integer as a whole number, a 64-bit one as \<^verbatim>\<open>{high, low, unsigned: false}\<close>, a blob and
  four MIDI bytes as a \<^verbatim>\<open>Uint8Array\<close>, a colour as \<^verbatim>\<open>{r, g, b, a}\<close> with the alpha a
  multiple of \<open>1/255\<close>, a character as a string of one code unit), and a time tag is the
  \<^verbatim>\<open>{raw, native}\<close> pair of \<^verbatim>\<open>osc.readTimeTag\<close>. The \<^verbatim>\<open>native\<close> time of the immediate tag
  \<open>(0, 1)\<close> is \<open>now\<close>, what the clock shows when the value is built; that of any other tag
  is computed from the tag.
\<close>

datatype scalar =
    Int32 "32 word"
  | Int64 "32 word" "32 word"
  | Float32 real
  | Float64 real
  | String jsstring
  | Symbol jsstring
  | Blob "byte list"
  | TimeTag "32 word" "32 word"
  | BoolTrue
  | BoolFalse
  | Null
  | Impulse
  | Char32 "16 word"
  | Color byte byte byte byte
  | Midi byte byte byte byte

datatype argument = Scalar scalar | Array "scalar list"

datatype oscPacket =
    OscMessage jsstring "argument list"
  | OscBundle "32 word" "32 word" "oscPacket list"

fun tagOf :: "scalar \<Rightarrow> 16 word" where
  "tagOf (Int32 w) = 0x69"
| "tagOf (Int64 hi lo) = 0x68"
| "tagOf (Float32 r) = 0x66"
| "tagOf (Float64 r) = 0x64"
| "tagOf (String s) = 0x73"
| "tagOf (Symbol s) = 0x53"
| "tagOf (Blob bs) = 0x62"
| "tagOf (TimeTag secs fr) = 0x74"
| "tagOf BoolTrue = 0x54"
| "tagOf BoolFalse = 0x46"
| "tagOf Null = 0x4E"
| "tagOf Impulse = 0x49"
| "tagOf (Char32 c) = 0x63"
| "tagOf (Color r g b a) = 0x72"
| "tagOf (Midi a b c d) = 0x6D"

definition timeTagValue :: "real \<Rightarrow> 32 word \<Rightarrow> 32 word \<Rightarrow> jsval" where
  "timeTagValue now secs fr =
     JObject [(''raw'', JArray [JNum (of_nat (unat secs)), JNum (of_nat (unat fr))]),
              (''native'', JNum (if secs = 0 \<and> fr = 1 then now
                                 else ntpToJSTime (of_nat (unat secs)) (of_nat (unat fr))))]"

fun valueOf :: "real \<Rightarrow> scalar \<Rightarrow> jsval" where
  "valueOf now (Int32 w) = JNum (of_int (sint w))"
| "valueOf now (Int64 hi lo) =
     JObject [(''high'', JNum (of_int (sint hi))), (''low'', JNum (of_int (sint lo))),
              (''unsigned'', JBool False)]"
| "valueOf now (Float32 r) = JNum r"
| "valueOf now (Float64 r) = JNum r"
| "valueOf now (String s) = JStr s"
| "valueOf now (Symbol s) = JStr s"
| "valueOf now (Blob bs) = JUint8Array bs"
| "valueOf now (TimeTag secs fr) = timeTagValue now secs fr"
| "valueOf now BoolTrue = JBool True"
| "valueOf now BoolFalse = JBool False"
| "valueOf now Null = JNull"
| "valueOf now Impulse = JNum 1"
| "valueOf now (Char32 c) = JStr [c]"
| "valueOf now (Color r g b a) =
     JObject [(''r'', JNum (of_nat (unat r))), (''g'', JNum (of_nat (unat g))),
              (''b'', JNum (of_nat (unat b))), (''a'', JNum (of_nat (unat a) / 255))]"
| "valueOf now (Midi a b c d) = JUint8Array [a, b, c, d]"

definition jsScalar :: "real \<Rightarrow> scalar \<Rightarrow> jsval" where
  "jsScalar now s = JObject [(''type'', JStr [tagOf s]), (''value'', valueOf now s)]"

fun jsArgument :: "real \<Rightarrow> argument \<Rightarrow> jsval" where
  "jsArgument now (Scalar s) = jsScalar now s"
| "jsArgument now (Array ss) = JArray (map (jsScalar now) ss)"

fun jsPacket :: "real \<Rightarrow> oscPacket \<Rightarrow> packet" where
  "jsPacket now (OscMessage addr argv) = Message addr (JArray (map (jsArgument now) argv))"
| "jsPacket now (OscBundle secs fr ps) = Bundle (timeTagValue now secs fr) (map (jsPacket now) ps)"

text \<open>
  The wire format of section 6 of the specification: a string as its encoding with the
  terminator, padded with zeros to a multiple of four bytes, everything else big-endian,
  blobs with their length and padding, a message as address, type tags and argument data,
  a bundle as \<^verbatim>\<open>#bundle\<close>, time tag and sized elements.
\<close>

definition wireString :: "platform \<Rightarrow> jsstring \<Rightarrow> byte list" where
  "wireString p s =
     (let e = encodeString p (s @ [0])
      in e @ zeros (align4 (length e) - length e))"

fun wireScalar :: "platform \<Rightarrow> scalar \<Rightarrow> byte list" where
  "wireScalar p (Int32 w) = be32 w"
| "wireScalar p (Int64 hi lo) = be32 hi @ be32 lo"
| "wireScalar p (Float32 r) = be32 (setFloat32 p r)"
| "wireScalar p (Float64 r) = be64 (setFloat64 p r)"
| "wireScalar p (String s) = wireString p s"
| "wireScalar p (Symbol s) = wireString p s"
| "wireScalar p (Blob bs) =
     be32 (of_nat (length bs)) @ bs @ zeros (align4 (length bs) - length bs)"
| "wireScalar p (TimeTag secs fr) = be32 secs @ be32 fr"
| "wireScalar p BoolTrue = []"
| "wireScalar p BoolFalse = []"
| "wireScalar p Null = []"
| "wireScalar p Impulse = []"
| "wireScalar p (Char32 c) = be32 (ucast c)"
| "wireScalar p (Color r g b a) = [r, g, b, a]"
| "wireScalar p (Midi a b c d) = [a, b, c, d]"

fun tagsOf :: "argument \<Rightarrow> jsstring" where
  "tagsOf (Scalar s) = [tagOf s]"
| "tagsOf (Array ss) = [0x5B] @ map tagOf ss @ [0x5D]"

fun wireArgument :: "platform \<Rightarrow> argument \<Rightarrow> byte list" where
  "wireArgument p (Scalar s) = wireScalar p s"
| "wireArgument p (Array ss) = concat (map (wireScalar p) ss)"

fun wirePacket :: "platform \<Rightarrow> oscPacket \<Rightarrow> byte list" where
  "wirePacket p (OscMessage addr argv) =
     wireString p addr @ wireString p ([0x2C] @ concat (map tagsOf argv)) @
     concat (map (wireArgument p) argv)"
| "wirePacket p (OscBundle secs fr ps) =
     wireString p (str ''#bundle'') @ be32 secs @ be32 fr @
     concat (map (\<lambda>x. be32 (of_nat (length (wirePacket p x))) @ wirePacket p x) ps)"

text \<open>
  What a typed packet must satisfy to travel unharmed. A string must survive the text
  encoding of the platform: its encoding ends in the one terminator, has no other zero
  byte and decodes to the string again (without a \<^verbatim>\<open>TextEncoder\<close>: every code unit is
  between 1 and 255). A float must be one the platform represents exactly. The encoding
  of a string and a blob must be shorter than \<open>2^31 - 3\<close> bytes, where the padded length of
  the source is right, and an element of a bundle shorter than \<open>2^31\<close> bytes, the range of
  the size field. An address begins with \<^verbatim>\<open>/\<close>.
\<close>

definition stringOk :: "platform \<Rightarrow> jsstring \<Rightarrow> bool" where
  "stringOk p s =
     (let e = encodeString p (s @ [0])
      in e \<noteq> [] \<and> last e = 0 \<and> 0 \<notin> set (butlast e) \<and> decodeString p (butlast e) = s \<and>
         length e + 3 < 2 ^ 31)"

fun okScalar :: "platform \<Rightarrow> scalar \<Rightarrow> bool" where
  "okScalar p (Float32 r) = (getFloat32 p (setFloat32 p r) = r)"
| "okScalar p (Float64 r) = (getFloat64 p (setFloat64 p r) = r)"
| "okScalar p (String s) = stringOk p s"
| "okScalar p (Symbol s) = stringOk p s"
| "okScalar p (Blob bs) = (length bs + 3 < 2 ^ 31)"
| "okScalar p s = True"

fun okArgument :: "platform \<Rightarrow> argument \<Rightarrow> bool" where
  "okArgument p (Scalar s) = okScalar p s"
| "okArgument p (Array ss) = list_all (okScalar p) ss"

fun okPacket :: "platform \<Rightarrow> oscPacket \<Rightarrow> bool" where
  "okPacket p (OscMessage addr argv) =
     (take 1 addr = [0x2F] \<and> stringOk p addr \<and>
      stringOk p ([0x2C] @ concat (map tagsOf argv)) \<and> list_all (okArgument p) argv)"
| "okPacket p (OscBundle secs fr ps) =
     (stringOk p (str ''#bundle'') \<and>
      list_all (\<lambda>x. okPacket p x \<and> length (wirePacket p x) < 2 ^ 31) ps)"

text \<open>
  Calls of \<^verbatim>\<open>osc.readPacket\<close> and rounds of the bundle loop that reading a typed packet
  takes, counted generously.
\<close>

fun fuelOf :: "oscPacket \<Rightarrow> nat" where
  "fuelOf (OscMessage addr argv) = 1"
| "fuelOf (OscBundle secs fr ps) = 3 + sum_list (map (\<lambda>x. fuelOf x + 1) ps)"

text \<open>
  Two typed packets for the examples: a message with an integer and an array of a string
  and a boolean, and a bundle to be run at once that holds the message and a second,
  empty bundle.
\<close>

definition exampleMessage :: oscPacket where
  "exampleMessage = OscMessage (str ''/a'') [Scalar (Int32 5), Array [String (str ''hi''), BoolTrue]]"

definition exampleBundle :: oscPacket where
  "exampleBundle = OscBundle 0 1 [exampleMessage, OscBundle 3900000000 2147483648 []]"

section \<open>Reference formulas\<close>

text \<open>A unit acknowledges within 5 seconds of the call.\<close>

definition acknowledges :: "real option \<Rightarrow> bool" where
  "acknowledges ack = (case ack of Some t \<Rightarrow> t < 5000 | None \<Rightarrow> False)"

text \<open>
  The offset \<^verbatim>\<open>sendOSC\<close> works with: the stored one, or the one computed on the spot from
  the two clocks when none is stored.
\<close>

definition effectiveOffset :: "superSonic \<Rightarrow> clocks \<Rightarrow> real" where
  "effectiveOffset s clk =
     (case wasmTimeOffset s of
        Some offset \<Rightarrow> offset
      | None \<Rightarrow> 2208988800 + dateNowMs clk / 1000 - currentTime clk)"

section \<open>Bytes: basic facts\<close>

lemma indexOf_le: "indexOf ys x = Some k \<Longrightarrow> k < length ys"
  by (induction ys arbitrary: k) (auto split: if_splits)

lemma length_be32 [simp]: "length (be32 w) = 4"
  by (simp add: be32_def)

lemma length_be64 [simp]: "length (be64 w) = 8"
  by (simp add: be64_def)

lemma word32_be32 [simp]: "word32 (be32 w) = w"
  unfolding be32_def
  apply simp
  apply (rule bit_word_eqI)
  apply (simp add: bit_simps)
  subgoal for n
    by (cases "n < 8"; cases "n < 16"; cases "n < 24"; simp; arith)
  done

lemma word64_be64 [simp]: "word64 (be64 w) = w"
proof (rule bit_word_eqI)
  fix n :: nat
  assume "n < LENGTH(64)"
  then have n: "n < 64" by simp
  consider "n < 8" | "8 \<le> n \<and> n < 16" | "16 \<le> n \<and> n < 24" | "24 \<le> n \<and> n < 32"
    | "32 \<le> n \<and> n < 40" | "40 \<le> n \<and> n < 48" | "48 \<le> n \<and> n < 56" | "56 \<le> n \<and> n < 64"
    using n by linarith
  then show "bit (word64 (be64 w)) n = bit w n"
    by cases (auto simp add: be64_def bit_simps)
qed

section \<open>Doubles: basic facts\<close>

text \<open>
  \<open>exponent\<close> finds the binade of a positive number; rounding to a double moves a number
  below \<open>2^k\<close> by at most \<open>2^(k-54)\<close>, and leaves a whole number below \<open>2^53\<close> as it is.
\<close>

lemma exponent_bounds:
  assumes "0 < x"
  shows "2 powi exponent x \<le> x" and "x < 2 powi (exponent x + 1)"
proof -
  show "2 powi exponent x \<le> x"
  proof (cases "1 \<le> x")
    case True
    define n where "n = \<lfloor>x\<rfloor>"
    have n: "0 < n" using True by (simp add: n_def)
    have b: "1 \<le> bitlen n" using n by (auto simp: bitlen_alt_def)
    have "2 ^ nat (bitlen n - 1) \<le> n" using bitlen_bounds [OF n] by blast
    then have "real_of_int (2 ^ nat (bitlen n - 1)) \<le> real_of_int n" by linarith
    then have "(2 :: real) ^ nat (bitlen n - 1) \<le> of_int n" by simp
    also have "\<dots> \<le> x" by (simp add: n_def)
    finally have "(2 :: real) ^ nat (bitlen n - 1) \<le> x" .
    moreover have "(2 :: real) powi (bitlen n - 1) = 2 ^ nat (bitlen n - 1)"
      using b by (simp add: power_int_def)
    ultimately show ?thesis using True by (simp add: exponent_def n_def)
  next
    case False
    define m where "m = \<lceil>1 / x\<rceil> - 1"
    have "1 < 1 / x" using False assms by simp
    then have "1 < \<lceil>1 / x\<rceil>" by linarith
    then have m: "0 < m" by (simp add: m_def)
    have "m < 2 ^ nat (bitlen m)" using bitlen_bounds [OF m] by blast
    then have "m + 1 \<le> 2 ^ nat (bitlen m)" by simp
    then have "real_of_int (m + 1) \<le> real_of_int (2 ^ nat (bitlen m))" by linarith
    then have "real_of_int (m + 1) \<le> 2 ^ nat (bitlen m)" by simp
    moreover have "1 / x \<le> real_of_int (m + 1)" unfolding m_def by linarith
    ultimately have "1 / x \<le> 2 ^ nat (bitlen m)" by linarith
    then have "1 \<le> 2 ^ nat (bitlen m) * x"
      using assms by (simp add: field_simps)
    then have "1 / 2 ^ nat (bitlen m) \<le> x"
      by (simp add: field_simps)
    moreover have "(2 :: real) powi (- bitlen m) = 1 / 2 ^ nat (bitlen m)"
      using bitlen_nonneg [of m] by (simp add: power_int_def field_simps)
    ultimately show ?thesis using False by (simp add: exponent_def m_def)
  qed
  show "x < 2 powi (exponent x + 1)"
  proof (cases "1 \<le> x")
    case True
    define n where "n = \<lfloor>x\<rfloor>"
    have n: "0 < n" using True by (simp add: n_def)
    have b: "1 \<le> bitlen n" using n by (auto simp: bitlen_alt_def)
    have "n < 2 ^ nat (bitlen n)" using bitlen_bounds [OF n] by blast
    then have "n + 1 \<le> 2 ^ nat (bitlen n)" by simp
    then have "real_of_int (n + 1) \<le> real_of_int (2 ^ nat (bitlen n))" by linarith
    then have "real_of_int (n + 1) \<le> 2 ^ nat (bitlen n)" by simp
    moreover have "x < real_of_int (n + 1)" unfolding n_def by linarith
    ultimately have "x < 2 ^ nat (bitlen n)" by linarith
    moreover have "(2 :: real) powi (bitlen n - 1 + 1) = 2 ^ nat (bitlen n)"
      using b by (simp add: power_int_def)
    ultimately show ?thesis using True by (simp add: exponent_def n_def)
  next
    case False
    define m where "m = \<lceil>1 / x\<rceil> - 1"
    have "1 < 1 / x" using False assms by simp
    then have "1 < \<lceil>1 / x\<rceil>" by linarith
    then have m: "0 < m" by (simp add: m_def)
    have b: "1 \<le> bitlen m" using m by (auto simp: bitlen_alt_def)
    have "2 ^ nat (bitlen m - 1) \<le> m" using bitlen_bounds [OF m] by blast
    then have "real_of_int (2 ^ nat (bitlen m - 1)) \<le> real_of_int m" by linarith
    then have "(2 :: real) ^ nat (bitlen m - 1) \<le> real_of_int m" by simp
    moreover have "real_of_int m < 1 / x" unfolding m_def by linarith
    ultimately have "(2 :: real) ^ nat (bitlen m - 1) < 1 / x" by linarith
    then have "2 ^ nat (bitlen m - 1) * x < 1"
      using assms by (simp add: field_simps)
    then have "x < 1 / 2 ^ nat (bitlen m - 1)"
      by (simp add: field_simps)
    moreover have "(2 :: real) powi (- bitlen m + 1) = 1 / 2 ^ nat (bitlen m - 1)"
    proof -
      have "- bitlen m + 1 = - int (nat (bitlen m - 1))" using b by simp
      then show ?thesis by (simp only: power_int_minus power_int_of_nat) (simp add: field_simps)
    qed
    ultimately show ?thesis using False by (simp add: exponent_def m_def)
  qed
qed

lemma exponent_unique:
  assumes "2 powi e \<le> x" and "x < 2 powi (e + 1)"
  shows "exponent x = e"
proof -
  have x: "0 < x"
    using assms(1) zero_less_power_int [of "2 :: real" e] by linarith
  have "(2 :: real) powi exponent x < 2 powi (e + 1)"
    using exponent_bounds(1) [OF x] assms(2) by linarith
  then have 1: "exponent x < e + 1"
    using power_int_increasing [of "e + 1" "exponent x" "2 :: real"] by fastforce
  have "(2 :: real) powi e < 2 powi (exponent x + 1)"
    using exponent_bounds(2) [OF x] assms(1) by linarith
  then have 2: "e < exponent x + 1"
    using power_int_increasing [of "exponent x + 1" e "2 :: real"] by fastforce
  show ?thesis using 1 2 by linarith
qed

lemma roundEven_error: "\<bar>real_of_int (roundEven q) - q\<bar> \<le> 1 / 2"
  unfolding roundEven_def Let_def by (auto; linarith)

lemma roundEven_of_int [simp]: "roundEven (of_int n) = n"
  by (simp add: roundEven_def)

lemma double_eq:
  assumes "2 powi e \<le> \<bar>x\<bar>" and "\<bar>x\<bar> < 2 powi (e + 1)" and "- 1022 \<le> e"
  shows "double x = sgn x * of_int (roundEven (\<bar>x\<bar> / 2 powi (e - 52))) * 2 powi (e - 52)"
proof -
  have p: "(0 :: real) < 2 powi e"
    by simp
  have "x \<noteq> 0"
  proof
    assume "x = 0"
    then have "2 powi e \<le> (0 :: real)"
      using assms(1) by simp
    then show False
      using p by linarith
  qed
  moreover have "exponent \<bar>x\<bar> = e"
    using assms(1,2) by (rule exponent_unique)
  ultimately show ?thesis
    using assms(3) by (simp add: double_def Let_def max_def)
qed

lemma double_error:
  assumes "\<bar>x\<bar> < 2 powi k" and "- 1021 \<le> k"
  shows "\<bar>double x - x\<bar> \<le> 2 powi (k - 54)"
proof (cases "x = 0")
  case True
  then show ?thesis by (simp add: double_def)
next
  case False
  define e where "e = max (exponent \<bar>x\<bar>) (- 1022)"
  define u :: real where "u = 2 powi (e - 52)"
  define r where "r = real_of_int (roundEven (\<bar>x\<bar> / u))"
  have x: "0 < \<bar>x\<bar>" using False by simp
  have u: "0 < u" by (simp add: u_def)
  have "(2 :: real) powi exponent \<bar>x\<bar> < 2 powi k"
    using exponent_bounds(1) [OF x] assms(1) by linarith
  then have "exponent \<bar>x\<bar> < k"
    using power_int_increasing [of k "exponent \<bar>x\<bar>" "2 :: real"] by fastforce
  then have e: "e \<le> k - 1"
    using assms(2) by (simp add: e_def)
  have d: "double x = sgn x * r * u"
    using False by (simp add: double_def Let_def e_def u_def r_def)
  have "x = sgn x * \<bar>x\<bar>"
    by (simp add: sgn_mult_abs)
  then have "x = sgn x * (\<bar>x\<bar> / u) * u"
    using u by simp
  then have "double x - x = sgn x * (r - \<bar>x\<bar> / u) * u"
    unfolding d by (simp add: algebra_simps)
  then have "\<bar>double x - x\<bar> = \<bar>r - \<bar>x\<bar> / u\<bar> * u"
    using False u by (simp add: abs_mult abs_sgn_eq)
  also have "\<dots> \<le> 1 / 2 * u"
    using roundEven_error [of "\<bar>x\<bar> / u"] u unfolding r_def by (intro mult_right_mono) simp_all
  also have "\<dots> = 2 powi (e - 53)"
  proof -
    have "(2 :: real) powi (e - 52) = 2 powi (e - 53) * 2 powi 1"
      using power_int_add [of "2 :: real" "e - 53" 1] by simp
    then show ?thesis by (simp add: u_def)
  qed
  also have "\<dots> \<le> 2 powi (k - 54)"
    using e by (intro power_int_increasing) simp_all
  finally show ?thesis .
qed

lemma double_of_int:
  assumes "\<bar>n\<bar> < 2 ^ 53"
  shows "double (of_int n) = of_int n"
proof (cases "n = 0")
  case True
  then show ?thesis by (simp add: double_def)
next
  case False
  define x where "x = real_of_int n"
  define e where "e = exponent \<bar>x\<bar>"
  have x: "1 \<le> \<bar>x\<bar>" using False by (simp add: x_def)
  have xp: "0 < \<bar>x\<bar>"
    using x by linarith
  have "1 < (2 :: real) powi (e + 1)"
    using exponent_bounds(2) [OF xp] x unfolding e_def by linarith
  then have "(2 :: real) powi 0 < 2 powi (e + 1)"
    by simp
  then have e0: "0 \<le> e"
    using power_int_increasing [of "e + 1" 0 "2 :: real"] by fastforce
  have "\<bar>x\<bar> < 2 ^ 53"
  proof -
    have "real_of_int \<bar>n\<bar> < real_of_int (2 ^ 53)"
      using assms by linarith
    then show ?thesis by (simp add: x_def)
  qed
  then have "(2 :: real) powi e < 2 powi 53"
    using exponent_bounds(1) [OF xp] unfolding e_def by simp
  then have e2: "e \<le> 52"
    using power_int_increasing [of 53 e "2 :: real"] by fastforce
  define j where "j = nat (52 - e)"
  have u: "(2 :: real) powi (e - 52) = 1 / 2 ^ j"
  proof -
    have "e - 52 = - int j" using e2 by (simp add: j_def)
    then show ?thesis by (simp only: power_int_minus power_int_of_nat) (simp add: field_simps)
  qed
  have q: "\<bar>x\<bar> / (1 / 2 ^ j) = real_of_int (\<bar>n\<bar> * 2 ^ j)"
    by (simp add: x_def)
  have r: "roundEven (\<bar>x\<bar> / (1 / 2 ^ j)) = \<bar>n\<bar> * 2 ^ j"
    unfolding q by (rule roundEven_of_int)
  have m: "max e (- 1022) = e"
    using e0 by simp
  have "x \<noteq> 0"
    using xp by auto
  then have "double x = sgn x * of_int (roundEven (\<bar>x\<bar> / 2 powi (e - 52))) * 2 powi (e - 52)"
    by (simp add: double_def Let_def e_def [symmetric] m)
  then have "double x = sgn x * of_int (\<bar>n\<bar> * 2 ^ j) * (1 / 2 ^ j)"
    by (simp only: u r)
  also have "\<dots> = sgn x * \<bar>x\<bar>"
    by (simp add: x_def)
  also have "\<dots> = x"
    by (simp add: sgn_mult_abs)
  finally show ?thesis by (simp add: x_def)
qed

section \<open>Calls on a system that is not ready\<close>

text \<open>
  C5, as the code has it. While the orchestrator is not initialized (fresh, or terminated),
  \<^verbatim>\<open>ScsynthOSC.send\<close> and \<^verbatim>\<open>sendImmediate\<close> return normally, having written one line to
  the console and posted nothing; \<^verbatim>\<open>cancelEditorTag\<close>, \<^verbatim>\<open>cancelEditor\<close> and \<^verbatim>\<open>cancelAll\<close>
  return normally and change nothing. The front end is different: while it is not
  initialized, \<^verbatim>\<open>SuperSonic.send\<close> and \<^verbatim>\<open>SuperSonic.sendOSC\<close> throw, and nothing is
  forwarded.
\<close>

theorem notReady_calls:
  assumes "\<not> initialized s" and "\<not> ssInitialized ss"
  shows "send s d opts = Inr (s\<lparr>console := console s @ [''[ScsynthOSC] Not initialized'']\<rparr>) \<and>
         sendImmediate s d = Inr (s\<lparr>console := console s @ [''[ScsynthOSC] Not initialized'']\<rparr>) \<and>
         cancelEditorTag s ed tag = Inr s \<and>
         cancelEditor s ed = Inr s \<and>
         cancelAll s = Inr s \<and>
         superSonicSend p ss clk addr argv = Inl NotInitialized \<and>
         sendOSC ss clk oscData opts = Inl NotInitialized"
  using assms
  by (simp add: send_def sendImmediate_def cancelEditorTag_def cancelEditor_def cancelAll_def
      superSonicSend_def sendOSC_def)

theorem notReady_calls_witness:
  "\<not> initialized (terminate (fst (init newScsynthOSC None))) \<and>
   \<not> ssInitialized (destroy newSuperSonic) \<and>
   cancelAll (terminate (fst (init newScsynthOSC None))) =
     Inr (terminate (fst (init newScsynthOSC None))) \<and>
   sendOSC (destroy newSuperSonic) \<lparr>currentTime = 0, dateNowMs = 0\<rparr> (JUint8Array [])
     noOptions = Inl NotInitialized"
proof -
  have a: "\<not> initialized (terminate (fst (init newScsynthOSC None)))"
    by (simp add: terminate_def)
  have b: "\<not> ssInitialized (destroy newSuperSonic)"
    by (simp add: destroy_def)
  show ?thesis
    using a b notReady_calls [OF a b] by simp
qed

text \<open>
  The claim as stated fails for the convenience send of the front end: on a fresh
  \<^verbatim>\<open>SuperSonic\<close> object \<^verbatim>\<open>send('/notify', 1)\<close> throws.
\<close>

theorem notReady_send_throws:
  "superSonicSend examplePlatform newSuperSonic \<lparr>currentTime = 0, dateNowMs = 0\<rparr>
     (str ''/notify'') [JNum 1] = Inl NotInitialized"
  by (simp add: superSonicSend_def newSuperSonic_def)

section \<open>Initialization of the workers\<close>

lemma promiseAll_initWorkers:
  "promiseAll [initWorker n1 a1, initWorker n2 a2, initWorker n3 a3] =
     (if acknowledges a1 \<and> acknowledges a2 \<and> acknowledges a3 then None
      else Some (WorkerInitTimeout
                   (if \<not> acknowledges a1 then n1 else if \<not> acknowledges a2 then n2 else n3)))"
  by (simp add: promiseAll_def initWorker_def acknowledges_def split: option.splits)

text \<open>
  C6. \<^verbatim>\<open>ScsynthOSC.init\<close> on an orchestrator that is not initialized creates the three
  workers and sends each \<^verbatim>\<open>init\<close>. Every handshake has its own timer of 5000 ms, and all
  three timers start with the call: when each worker acknowledges within 5 seconds,
  however the three times add up, the two \<^verbatim>\<open>start\<close> messages are posted, the object is
  marked initialized and the \<^verbatim>\<open>onInitialized\<close> observer, if registered, is called once. When
  a worker does not, \<^verbatim>\<open>init\<close> rethrows the timeout error of the first worker (in the order
  OSC OUT, OSC IN, DEBUG) that failed, having written to the console and called the
  \<^verbatim>\<open>onError\<close> observer; the object is not marked initialized, the \<^verbatim>\<open>onInitialized\<close>
  observer is not called, a later \<^verbatim>\<open>send\<close> posts nothing, and \<^verbatim>\<open>terminate\<close> stops the three
  workers. A further \<^verbatim>\<open>init\<close> on an initialized object calls no observer.
\<close>

theorem init_handshake_timeout:
  assumes "\<not> initialized s"
  shows "initialize s a1 a2 a3 =
           (if acknowledges a1 \<and> acknowledges a2 \<and> acknowledges a3 then
              (s\<lparr>workers := {OscOut, OscIn, DebugWorker},
                 posted := posted s @ [(OscOut, MsgInit), (OscIn, MsgInit), (DebugWorker, MsgInit),
                                       (OscIn, MsgStart), (DebugWorker, MsgStart)],
                 initialized := True,
                 notified := notified s @
                   (if OnInitialized \<in> callbacks s then [NotifyInitialized] else [])\<rparr>, None)
            else
              (s\<lparr>workers := {OscOut, OscIn, DebugWorker},
                 posted := posted s @ [(OscOut, MsgInit), (OscIn, MsgInit), (DebugWorker, MsgInit)],
                 console := console s @ [''[ScsynthOSC] Initialization failed:''],
                 notified := notified s @
                   (if OnError \<in> callbacks s
                    then [NotifyError (WorkerInitTimeout
                            (if \<not> acknowledges a1 then ''OSC OUT''
                             else if \<not> acknowledges a2 then ''OSC IN'' else ''DEBUG''))]
                    else [])\<rparr>,
               Some (WorkerInitTimeout
                       (if \<not> acknowledges a1 then ''OSC OUT''
                        else if \<not> acknowledges a2 then ''OSC IN'' else ''DEBUG'')))) \<and>
         (\<not> (acknowledges a1 \<and> acknowledges a2 \<and> acknowledges a3) \<longrightarrow>
            \<not> initialized (fst (initialize s a1 a2 a3)) \<and>
            send (fst (initialize s a1 a2 a3)) d opts =
              Inr ((fst (initialize s a1 a2 a3))
                     \<lparr>console := console (fst (initialize s a1 a2 a3)) @
                                  [''[ScsynthOSC] Not initialized'']\<rparr>) \<and>
            posted (terminate (fst (initialize s a1 a2 a3))) =
              posted s @ [(OscOut, MsgInit), (OscIn, MsgInit), (DebugWorker, MsgInit),
                          (OscOut, MsgStop), (OscIn, MsgStop), (DebugWorker, MsgStop)]) \<and>
         (acknowledges a1 \<and> acknowledges a2 \<and> acknowledges a3 \<longrightarrow>
            notified (fst (initialize (fst (initialize s a1 a2 a3)) b1 b2 b3)) =
              notified (fst (initialize s a1 a2 a3)) \<and>
            snd (initialize (fst (initialize s a1 a2 a3)) b1 b2 b3) = None)"
proof -
  have i: "initialize s a1 a2 a3 =
           (if acknowledges a1 \<and> acknowledges a2 \<and> acknowledges a3 then
              (s\<lparr>workers := {OscOut, OscIn, DebugWorker},
                 posted := posted s @ [(OscOut, MsgInit), (OscIn, MsgInit), (DebugWorker, MsgInit),
                                       (OscIn, MsgStart), (DebugWorker, MsgStart)],
                 initialized := True,
                 notified := notified s @
                   (if OnInitialized \<in> callbacks s then [NotifyInitialized] else [])\<rparr>, None)
            else
              (s\<lparr>workers := {OscOut, OscIn, DebugWorker},
                 posted := posted s @ [(OscOut, MsgInit), (OscIn, MsgInit), (DebugWorker, MsgInit)],
                 console := console s @ [''[ScsynthOSC] Initialization failed:''],
                 notified := notified s @
                   (if OnError \<in> callbacks s
                    then [NotifyError (WorkerInitTimeout
                            (if \<not> acknowledges a1 then ''OSC OUT''
                             else if \<not> acknowledges a2 then ''OSC IN'' else ''DEBUG''))]
                    else [])\<rparr>,
               Some (WorkerInitTimeout
                       (if \<not> acknowledges a1 then ''OSC OUT''
                        else if \<not> acknowledges a2 then ''OSC IN'' else ''DEBUG''))))"
    using assms unfolding initialize_def promiseAll_initWorkers init_def Let_def by simp
  have f: "\<not> initialized (fst (initialize s a1 a2 a3)) \<and>
           send (fst (initialize s a1 a2 a3)) d opts =
             Inr ((fst (initialize s a1 a2 a3))
                    \<lparr>console := console (fst (initialize s a1 a2 a3)) @
                                 [''[ScsynthOSC] Not initialized'']\<rparr>) \<and>
           posted (terminate (fst (initialize s a1 a2 a3))) =
             posted s @ [(OscOut, MsgInit), (OscIn, MsgInit), (DebugWorker, MsgInit),
                         (OscOut, MsgStop), (OscIn, MsgStop), (DebugWorker, MsgStop)]"
    if "\<not> (acknowledges a1 \<and> acknowledges a2 \<and> acknowledges a3)"
    unfolding i using that assms by (simp add: send_def terminate_def)
  have g: "notified (fst (initialize (fst (initialize s a1 a2 a3)) b1 b2 b3)) =
             notified (fst (initialize s a1 a2 a3)) \<and>
           snd (initialize (fst (initialize s a1 a2 a3)) b1 b2 b3) = None"
    if "acknowledges a1 \<and> acknowledges a2 \<and> acknowledges a3"
  proof -
    have "initialized (fst (initialize s a1 a2 a3))"
      unfolding i using that by simp
    then show ?thesis
      by (simp add: initialize_def init_def)
  qed
  show ?thesis
    using i f g by blast
qed

text \<open>
  On a fresh orchestrator with both observers registered: the workers acknowledge after
  4000, 4500 and 4900 ms and the object is ready, the observer called once; the second
  worker never acknowledges and the third does so after 6 seconds, and \<^verbatim>\<open>init\<close> fails with
  the timeout of OSC IN.
\<close>

theorem init_handshake_timeout_witness:
  "\<not> initialized (onInitialized (onError newScsynthOSC)) \<and>
   acknowledges (Some 4000) \<and> acknowledges (Some 4500) \<and> acknowledges (Some 4900) \<and>
   \<not> (acknowledges (Some 100) \<and> acknowledges None \<and> acknowledges (Some 6000)) \<and>
   initialized (fst (initialize (onInitialized (onError newScsynthOSC))
                       (Some 4000) (Some 4500) (Some 4900))) \<and>
   notified (fst (initialize (onInitialized (onError newScsynthOSC))
                    (Some 4000) (Some 4500) (Some 4900))) = [NotifyInitialized] \<and>
   notified (fst (initialize
                    (fst (initialize (onInitialized (onError newScsynthOSC))
                            (Some 4000) (Some 4500) (Some 4900)))
                    (Some 1) (Some 1) (Some 1))) = [NotifyInitialized] \<and>
   snd (initialize (onInitialized (onError newScsynthOSC)) (Some 100) None (Some 6000)) =
     Some (WorkerInitTimeout ''OSC IN'') \<and>
   \<not> initialized (fst (initialize (onInitialized (onError newScsynthOSC))
                         (Some 100) None (Some 6000))) \<and>
   notified (fst (initialize (onInitialized (onError newScsynthOSC)) (Some 100) None (Some 6000))) =
     [NotifyError (WorkerInitTimeout ''OSC IN'')] \<and>
   posted (terminate (fst (initialize (onInitialized (onError newScsynthOSC))
                             (Some 100) None (Some 6000)))) =
     [(OscOut, MsgInit), (OscIn, MsgInit), (DebugWorker, MsgInit),
      (OscOut, MsgStop), (OscIn, MsgStop), (DebugWorker, MsgStop)]"
proof -
  let ?s = "onInitialized (onError newScsynthOSC)"
  have n: "\<not> initialized ?s"
    by (simp add: onInitialized_def onError_def newScsynthOSC_def)
  have a: "acknowledges (Some 4000) \<and> acknowledges (Some 4500) \<and> acknowledges (Some 4900)"
    by (simp add: acknowledges_def)
  have b: "\<not> (acknowledges (Some 100) \<and> acknowledges None \<and> acknowledges (Some 6000))"
    by (simp add: acknowledges_def)
  have c: "callbacks ?s = {OnInitialized, OnError}" "notified ?s = []" "posted ?s = []"
    by (simp_all add: onInitialized_def onError_def newScsynthOSC_def)
  note ok = init_handshake_timeout [OF n, of "Some 4000" "Some 4500" "Some 4900" _ _ "Some 1" "Some 1" "Some 1"]
  note ko = init_handshake_timeout [OF n, of "Some 100" None "Some 6000"]
  have 1: "initialized (fst (initialize ?s (Some 4000) (Some 4500) (Some 4900)))"
    "notified (fst (initialize ?s (Some 4000) (Some 4500) (Some 4900))) = [NotifyInitialized]"
    using ok a c n by simp_all
  have "notified (fst (initialize (fst (initialize ?s (Some 4000) (Some 4500) (Some 4900)))
                         (Some 1) (Some 1) (Some 1))) =
        notified (fst (initialize ?s (Some 4000) (Some 4500) (Some 4900)))"
    using ok a by blast
  then have 2: "notified (fst (initialize (fst (initialize ?s (Some 4000) (Some 4500) (Some 4900)))
                            (Some 1) (Some 1) (Some 1))) = [NotifyInitialized]"
    using 1(2) by (simp only:)
  have 3: "snd (initialize ?s (Some 100) None (Some 6000)) = Some (WorkerInitTimeout ''OSC IN'')"
    "\<not> initialized (fst (initialize ?s (Some 100) None (Some 6000)))"
    "notified (fst (initialize ?s (Some 100) None (Some 6000))) =
       [NotifyError (WorkerInitTimeout ''OSC IN'')]"
    using ko b c n by (simp_all add: acknowledges_def)
  have "posted (terminate (fst (initialize ?s (Some 100) None (Some 6000)))) =
     posted ?s @ [(OscOut, MsgInit), (OscIn, MsgInit), (DebugWorker, MsgInit),
                  (OscOut, MsgStop), (OscIn, MsgStop), (DebugWorker, MsgStop)]"
    using ko b by blast
  then have 4: "posted (terminate (fst (initialize ?s (Some 100) None (Some 6000)))) =
     [(OscOut, MsgInit), (OscIn, MsgInit), (DebugWorker, MsgInit),
      (OscOut, MsgStop), (OscIn, MsgStop), (DebugWorker, MsgStop)]"
    by (simp only: c(3) append_Nil)
  show ?thesis
    using n a b 1 2 3 4 by blast
qed

section \<open>The clock offset\<close>

text \<open>
  C9, as the code has it. \<^verbatim>\<open>#calculateTimeOffset\<close> stores
  \<open>2208988800 + Date.now() / 1000 - audioContext.currentTime\<close> and drops the resolver of
  the offset promise. The \<^verbatim>\<open>statechange\<close> listener computes the offset when the context
  has become running and the resolver is still there, that is, the first time only; on
  every later change the stored offset stays as it is.
\<close>

theorem offset_computed_once:
  "wasmTimeOffset (calculateTimeOffset s clk) =
     Some (2208988800 + dateNowMs clk / 1000 - currentTime clk) \<and>
   resolveTimeOffset (calculateTimeOffset s clk) = False \<and>
   wasmTimeOffset (statechange s st clk) =
     (if st = Running \<and> resolveTimeOffset s
      then Some (2208988800 + dateNowMs clk / 1000 - currentTime clk)
      else wasmTimeOffset s) \<and>
   resolveTimeOffset (statechange s st clk) = (resolveTimeOffset s \<and> st \<noteq> Running)"
  by (simp add: statechange_def calculateTimeOffset_def Let_def)

text \<open>
  The claim as stated fails: the context is created suspended, becomes running (offset
  2208988800 at both clocks 0), is suspended, and becomes running again when the wall clock
  shows 5 s and the audio clock 1 s. The offset is still the first one, not
  \<open>2208988800 + 5 - 1\<close>.
\<close>

theorem offset_not_recomputed:
  "wasmTimeOffset
     (statechange
        (statechange
           (statechange
              (initializeAudioContext newSuperSonic Suspended \<lparr>currentTime = 0, dateNowMs = 0\<rparr>)
              Running \<lparr>currentTime = 0, dateNowMs = 0\<rparr>)
           Suspended \<lparr>currentTime = 1, dateNowMs = 3000\<rparr>)
        Running \<lparr>currentTime = 1, dateNowMs = 5000\<rparr>) = Some 2208988800 \<and>
   (2208988800 + 5000 / 1000 - 1 :: real) \<noteq> 2208988800"
  by (simp add: statechange_def calculateTimeOffset_def Let_def initializeAudioContext_def
      newSuperSonic_def)

section \<open>The release delay of a bundle\<close>

lemma computeWaitTime_take16: "computeWaitTime s clk (take 16 d) = computeWaitTime s clk d"
proof (cases "16 \<le> length d")
  case True
  then have "16 \<le> length (take 16 d)" "take 8 (take 16 d) = take 8 d"
    "take 4 (drop 8 (take 16 d)) = take 4 (drop 8 d)"
    "take 4 (drop 12 (take 16 d)) = take 4 (drop 12 d)"
    by (simp_all add: drop_take min_def)
  then show ?thesis
    using True unfolding computeWaitTime_def by simp
next
  case False
  then show ?thesis by simp
qed

lemma computeWaitTime_other:
  "length d < 16 \<or> take 8 d \<noteq> bundleHeader \<Longrightarrow> computeWaitTime s clk d = (s, None)"
  by (auto simp: computeWaitTime_def Let_def)

lemma computeWaitTime_bundle:
  assumes "d = bundleHeader @ be32 secs @ be32 fr @ rest"
  shows "snd (computeWaitTime s clk d) =
           (if secs = 0 \<and> (fr = 0 \<or> fr = 1) then None
            else Some ((real (unat secs) + real (unat fr) / 4294967296 - effectiveOffset s clk
                        - currentTime clk - 0.05) * 1000)) \<and>
         wasmTimeOffset (fst (computeWaitTime s clk d)) = Some (effectiveOffset s clk)"
proof -
  have l: "(16 \<le> length d) = True" "take 8 d = bundleHeader" "take 4 (drop 8 d) = be32 secs"
    "take 4 (drop 12 d) = be32 fr"
    using assms by (simp_all add: bundleHeader_def)
  show ?thesis
    unfolding computeWaitTime_def l word32_be32 effectiveOffset_def
    by (auto simp: Let_def calculateTimeOffset_def split: option.splits)
qed

lemma computeWaitTime_messagesSent:
  "snd (computeWaitTime (s\<lparr>messagesSent := k\<rparr>) clk d) = snd (computeWaitTime s clk d)"
  by (simp add: computeWaitTime_def Let_def calculateTimeOffset_def)

lemma computeWaitTime_osc: "osc (fst (computeWaitTime s clk d)) = osc s"
  by (simp add: computeWaitTime_def Let_def calculateTimeOffset_def)

lemma sendOSC_forwards:
  assumes "ssInitialized s" and "osc s = Some orch" and "initialized orch"
    and "OscOut \<in> workers orch"
  shows "\<exists>s1 orch1. sendOSC s clk (JUint8Array d) opts = Inr s1 \<and> osc s1 = Some orch1 \<and>
           posted orch1 = posted orch @
             [(OscOut, MsgSend d (case editorId opts of None \<Rightarrow> 0 | Some e \<Rightarrow> e)
                        (case runTag opts of None \<Rightarrow> [] | Some t \<Rightarrow> t)
                        (snd (computeWaitTime s clk d)))]"
proof -
  obtain s2 wait where c: "computeWaitTime (s\<lparr>messagesSent := messagesSent s + 1\<rparr>) clk d = (s2, wait)"
    by (cases "computeWaitTime (s\<lparr>messagesSent := messagesSent s + 1\<rparr>) clk d") auto
  have w: "wait = snd (computeWaitTime s clk d)"
    using c computeWaitTime_messagesSent [where s = s and k = "messagesSent s + 1" and clk = clk and d = d]
    by simp
  have o: "osc s2 = Some orch"
    using c computeWaitTime_osc [where s = "s\<lparr>messagesSent := messagesSent s + 1\<rparr>" and clk = clk and d = d]
      assms(2)
    by simp
  show ?thesis
    using assms c o w
    by (simp add: sendOSC_def bind_def send_def postMessage_def)
qed

text \<open>
  C8, as the code has it. \<^verbatim>\<open>sendOSC\<close> looks at the first 16 bytes only. A payload shorter
  than 16 bytes, or one that does not begin with \<^verbatim>\<open>#bundle\<close> and its terminator, gets no
  delay. A bundle whose time tag is \<open>(0, 0)\<close> or the immediate tag \<open>(0, 1)\<close> gets no delay
  either. Any other bundle gets
  \<open>(seconds + fraction / 2^32 - offset - currentTime - 0.05) * 1000\<close> milliseconds, where the
  offset is the stored one or, when none is stored, the one computed on the spot, which is
  then stored. The delay is what reaches the outbound worker.
\<close>

theorem sendOSC_release_delay:
  "computeWaitTime s clk (take 16 d) = computeWaitTime s clk d \<and>
   (length d < 16 \<or> take 8 d \<noteq> bundleHeader \<longrightarrow> computeWaitTime s clk d = (s, None)) \<and>
   snd (computeWaitTime s clk (bundleHeader @ be32 secs @ be32 fr @ rest)) =
     (if secs = 0 \<and> (fr = 0 \<or> fr = 1) then None
      else Some ((real (unat secs) + real (unat fr) / 4294967296 - effectiveOffset s clk
                  - currentTime clk - 0.05) * 1000)) \<and>
   wasmTimeOffset (fst (computeWaitTime s clk (bundleHeader @ be32 secs @ be32 fr @ rest))) =
     Some (effectiveOffset s clk) \<and>
   (ssInitialized s \<and> osc s = Some orch \<and> initialized orch \<and> OscOut \<in> workers orch \<longrightarrow>
      (\<exists>s1 orch1. sendOSC s clk (JUint8Array d) opts = Inr s1 \<and> osc s1 = Some orch1 \<and>
         posted orch1 = posted orch @
           [(OscOut, MsgSend d (case editorId opts of None \<Rightarrow> 0 | Some e \<Rightarrow> e)
                      (case runTag opts of None \<Rightarrow> [] | Some t \<Rightarrow> t)
                      (snd (computeWaitTime s clk d)))]))"
proof (intro conjI impI)
  show "computeWaitTime s clk (take 16 d) = computeWaitTime s clk d"
    by (rule computeWaitTime_take16)
  show "computeWaitTime s clk d = (s, None)" if "length d < 16 \<or> take 8 d \<noteq> bundleHeader"
    using that by (rule computeWaitTime_other)
  show "snd (computeWaitTime s clk (bundleHeader @ be32 secs @ be32 fr @ rest)) =
     (if secs = 0 \<and> (fr = 0 \<or> fr = 1) then None
      else Some ((real (unat secs) + real (unat fr) / 4294967296 - effectiveOffset s clk
                  - currentTime clk - 0.05) * 1000))"
    using computeWaitTime_bundle [OF refl] by blast
  show "wasmTimeOffset (fst (computeWaitTime s clk (bundleHeader @ be32 secs @ be32 fr @ rest))) =
     Some (effectiveOffset s clk)"
    using computeWaitTime_bundle [OF refl] by blast
  show "\<exists>s1 orch1. sendOSC s clk (JUint8Array d) opts = Inr s1 \<and> osc s1 = Some orch1 \<and>
         posted orch1 = posted orch @
           [(OscOut, MsgSend d (case editorId opts of None \<Rightarrow> 0 | Some e \<Rightarrow> e)
                      (case runTag opts of None \<Rightarrow> [] | Some t \<Rightarrow> t)
                      (snd (computeWaitTime s clk d)))]"
    if "ssInitialized s \<and> osc s = Some orch \<and> initialized orch \<and> OscOut \<in> workers orch"
    using that sendOSC_forwards by blast
qed

theorem sendOSC_release_delay_witness:
  "(length ([] :: byte list) < 16 \<or> take 8 [] \<noteq> bundleHeader) \<and>
   computeWaitTime readySuperSonic \<lparr>currentTime = 1, dateNowMs = 0\<rparr> [] = (readySuperSonic, None) \<and>
   ssInitialized readySuperSonic \<and> osc readySuperSonic = Some readyOrchestrator \<and>
   initialized readyOrchestrator \<and> OscOut \<in> workers readyOrchestrator \<and>
   (\<exists>s1 orch1.
      sendOSC readySuperSonic \<lparr>currentTime = 1, dateNowMs = 0\<rparr>
        (JUint8Array (bundleHeader @ be32 2208988810 @ be32 0 @ [])) noOptions = Inr s1 \<and>
      osc s1 = Some orch1 \<and>
      posted orch1 = posted readyOrchestrator @
        [(OscOut, MsgSend (bundleHeader @ be32 2208988810 @ be32 0 @ []) 0 [] (Some 8950))])"
proof -
  let ?clk = "\<lparr>currentTime = 1, dateNowMs = 0\<rparr>"
  let ?d = "bundleHeader @ be32 2208988810 @ be32 0 @ []"
  have h1: "length ([] :: byte list) < 16 \<or> take 8 [] \<noteq> bundleHeader"
    by simp
  have h2: "ssInitialized readySuperSonic \<and> osc readySuperSonic = Some readyOrchestrator \<and>
            initialized readyOrchestrator \<and> OscOut \<in> workers readyOrchestrator"
    by (simp add: readySuperSonic_def readyOrchestrator_def init_def newScsynthOSC_def Let_def)
  have a: "computeWaitTime readySuperSonic ?clk [] = (readySuperSonic, None)"
    using sendOSC_release_delay [where d = "[]" and s = readySuperSonic and clk = ?clk] h1 by blast
  have w: "snd (computeWaitTime readySuperSonic ?clk ?d) = Some 8950"
    using sendOSC_release_delay [where s = readySuperSonic and clk = ?clk
        and secs = 2208988810 and fr = 0 and rest = "[]"]
    by (simp add: effectiveOffset_def readySuperSonic_def)
  have "\<exists>s1 orch1. sendOSC readySuperSonic ?clk (JUint8Array ?d) noOptions = Inr s1 \<and>
          osc s1 = Some orch1 \<and>
          posted orch1 = posted readyOrchestrator @
            [(OscOut, MsgSend ?d (case editorId noOptions of None \<Rightarrow> 0 | Some e \<Rightarrow> e)
                       (case runTag noOptions of None \<Rightarrow> [] | Some t \<Rightarrow> t)
                       (snd (computeWaitTime readySuperSonic ?clk ?d)))]"
    using sendOSC_release_delay [where s = readySuperSonic and clk = ?clk and d = ?d
        and orch = readyOrchestrator and opts = noOptions] h2 by blast
  then have b: "\<exists>s1 orch1. sendOSC readySuperSonic ?clk (JUint8Array ?d) noOptions = Inr s1 \<and>
          osc s1 = Some orch1 \<and>
          posted orch1 = posted readyOrchestrator @ [(OscOut, MsgSend ?d 0 [] (Some 8950))]"
    unfolding w by (simp add: noOptions_def)
  show ?thesis
    using h1 h2 a b by blast
qed

text \<open>
  The claim as stated fails: the time tag \<open>(0, 0)\<close> is not the immediate tag \<open>(0, 1)\<close>, and
  a bundle that carries it gets no delay.
\<close>

theorem zero_timeTag_sent_now:
  "snd (computeWaitTime readySuperSonic \<lparr>currentTime = 1, dateNowMs = 0\<rparr>
          (bundleHeader @ be32 0 @ be32 0)) = None \<and>
   (0 :: 32 word, 0 :: 32 word) \<noteq> (0, 1)"
  by (simp add: computeWaitTime_def bundleHeader_def)

section \<open>Time tags and JavaScript time\<close>

lemma pow2_values:
  "(2 :: real) powi (- 54) = 1 / 18014398509481984"
  "(2 :: real) powi (- 22) = 1 / 4194304"
  "(2 :: real) powi (- 21) = 1 / 2097152"
  "(2 :: real) powi (- 12) = 1 / 4096"
  "(2 :: real) powi 0 = 1"
  "(2 :: real) powi 32 = 4294967296"
  "(2 :: real) powi 33 = 8589934592"
  "(2 :: real) powi 42 = 4398046511104"
  "(2 :: real) powi (- 23) = 1 / 8388608"
  "(2 :: real) powi (- 53) = 1 / 9007199254740992"
  "(2 :: real) powi 1 = 2"
  "(2 :: real) powi 31 = 2147483648"
  by (simp_all add: power_int_minus)

lemma ntpToJSTime_error:
  assumes "a < 2 ^ 32" and "b < 2 ^ 32"
  shows "\<bar>ntpToJSTime (real a) (real b) - ((real a - 2208988800) + real b / 2 ^ 32) * 1000\<bar>
           \<le> 483 / 1000000"
proof -
  define s where "s = real a - 2208988800"
  define q where "q = real b / 4294967296"
  define d where "d = double q"
  define y where "y = double (s + d)"
  define m where "m = double (y * 1000)"
  have a: "0 \<le> real a" "real a < 4294967296"
    using assms(1) by simp_all
  have q: "0 \<le> q" "q < 1"
    using assms(2) by (simp_all add: q_def)
  have s: "double s = s"
  proof -
    have "s = of_int (int a - 2208988800)"
      by (simp add: s_def)
    moreover have "\<bar>int a - 2208988800\<bar> < 2 ^ 53"
      using assms(1) by simp
    ultimately show ?thesis
      using double_of_int [of "int a - 2208988800"] by simp
  qed
  have "\<bar>q\<bar> < 2 powi 0"
    using q by simp
  then have "\<bar>double q - q\<bar> \<le> 2 powi (0 - 54)"
    by (rule double_error) simp
  then have d: "\<bar>d - q\<bar> \<le> 1 / 18014398509481984"
    by (simp add: d_def pow2_values)
  have "\<bar>s + d\<bar> < 2 powi 32"
    using a q d unfolding s_def pow2_values by linarith
  then have "\<bar>double (s + d) - (s + d)\<bar> \<le> 2 powi (32 - 54)"
    by (rule double_error) simp
  then have y: "\<bar>y - (s + d)\<bar> \<le> 1 / 4194304"
    by (simp add: y_def pow2_values)
  have "\<bar>y * 1000\<bar> < 2 powi 42"
    using a q d y unfolding s_def pow2_values by linarith
  then have "\<bar>double (y * 1000) - y * 1000\<bar> \<le> 2 powi (42 - 54)"
    by (rule double_error) simp
  then have m: "\<bar>m - y * 1000\<bar> \<le> 1 / 4096"
    by (simp add: m_def pow2_values)
  have "ntpToJSTime (real a) (real b) = m"
    using s by (simp add: ntpToJSTime_def SECS_70YRS_def TWO_32_def Let_def m_def y_def d_def
        s_def [symmetric] q_def [symmetric])
  moreover have "\<bar>m - (s + q) * 1000\<bar> \<le> 483 / 1000000"
    using d y m unfolding abs_le_iff by (simp add: algebra_simps)
  ultimately show ?thesis
    by (simp add: s_def q_def)
qed

lemma whole_seconds_exact:
  assumes "a < 2 ^ 32"
  shows "ntpToJSTime (real a) 0 = (real a - 2208988800) * 1000"
    and "jsToNTPTime ((real a - 2208988800) * 1000) = (real a, 0)"
proof -
  define n where "n = int a - 2208988800"
  have n: "real a - 2208988800 = of_int n"
    by (simp add: n_def)
  have b: "\<bar>n\<bar> < 2 ^ 53" "\<bar>n * 1000\<bar> < 2 ^ 53" "\<bar>int a\<bar> < 2 ^ 53"
    using assms by (simp_all add: n_def)
  have 1: "double (of_int n) = of_int n"
    using b(1) by (rule double_of_int)
  have 2: "double (of_int n * 1000) = of_int n * 1000"
    using double_of_int [OF b(2)] by simp
  have 3: "double (real a) = real a"
    using double_of_int [OF b(3)] by simp
  have 0: "double 0 = 0"
    by (simp add: double_def)
  show "ntpToJSTime (real a) 0 = (real a - 2208988800) * 1000"
    unfolding ntpToJSTime_def SECS_70YRS_def TWO_32_def Let_def n
    by (simp add: 0 1 2)
  have f: "Math_floor (real_of_int n) = of_int n"
    by (simp add: Math_floor_def)
  have e: "real_of_int n + 2208988800 = real a"
    by (simp add: n_def)
  show "jsToNTPTime ((real a - 2208988800) * 1000) = (real a, 0)"
    unfolding jsToNTPTime_def SECS_70YRS_def TWO_32_def Let_def n
    by (simp add: 0 1 3 f e Math_round_def)
qed

lemma timeTag_roundtrip_error:
  assumes "a < 2 ^ 32" and "b < 2 ^ 32"
  shows "\<bar>fst (jsToNTPTime (ntpToJSTime (real a) (real b))) +
          snd (jsToNTPTime (ntpToJSTime (real a) (real b))) / 2 ^ 32 -
          (real a + real b / 2 ^ 32)\<bar> \<le> 1 / 1000000"
proof -
  define x where "x = (real a - 2208988800) + real b / 2 ^ 32"
  define m where "m = ntpToJSTime (real a) (real b)"
  define secs where "secs = double (m / 1000)"
  define w where "w = \<lfloor>secs\<rfloor>"
  define r where "r = secs - of_int w"
  define fr where "fr = double r"
  define g where "g = double (4294967296 * fr)"
  define f' where "f' = real_of_int \<lfloor>g + 1 / 2\<rfloor>"
  have a: "0 \<le> real a" "real a < 4294967296"
    using assms(1) by simp_all
  have b: "0 \<le> real b / 2 ^ 32" "real b / 2 ^ 32 < 1"
    using assms(2) by simp_all
  have m: "\<bar>m - x * 1000\<bar> \<le> 483 / 1000000"
    unfolding m_def x_def using assms by (rule ntpToJSTime_error)
  have "\<bar>m / 1000\<bar> < 2 powi 32"
    using a b m unfolding x_def pow2_values abs_le_iff abs_less_iff by (simp add: algebra_simps)
  then have "\<bar>double (m / 1000) - m / 1000\<bar> \<le> 2 powi (32 - 54)"
    by (rule double_error) simp
  then have secs: "\<bar>secs - m / 1000\<bar> \<le> 1 / 4194304"
    by (simp add: secs_def pow2_values)
  have r: "0 \<le> r" "r < 1"
    unfolding r_def w_def by linarith+
  then have "\<bar>r\<bar> < 2 powi 0"
    by simp
  then have "\<bar>double r - r\<bar> \<le> 2 powi (0 - 54)"
    by (rule double_error) simp
  then have fr: "\<bar>fr - r\<bar> \<le> 1 / 18014398509481984"
    by (simp add: fr_def pow2_values)
  have "\<bar>4294967296 * fr\<bar> < 2 powi 33"
    using r fr unfolding pow2_values abs_le_iff abs_less_iff by (simp add: algebra_simps)
  then have "\<bar>double (4294967296 * fr) - 4294967296 * fr\<bar> \<le> 2 powi (33 - 54)"
    by (rule double_error) simp
  then have g: "\<bar>g - 4294967296 * fr\<bar> \<le> 1 / 2097152"
    by (simp add: g_def pow2_values)
  have f': "\<bar>f' - g\<bar> \<le> 1 / 2"
    unfolding f'_def by linarith
  have wb: "\<bar>real_of_int w\<bar> < 4294967296"
    using a b m secs r unfolding r_def x_def abs_le_iff abs_less_iff by (simp add: algebra_simps)
  have "\<bar>w + 2208988800\<bar> < 2 ^ 53"
  proof -
    have "real_of_int \<bar>w + 2208988800\<bar> < real_of_int (2 ^ 53)"
      using wb by simp
    then show ?thesis by linarith
  qed
  then have "double (of_int (w + 2208988800)) = of_int (w + 2208988800)"
    by (rule double_of_int)
  then have s': "double (of_int w + 2208988800) = of_int w + 2208988800"
    by simp
  have j: "jsToNTPTime m = (of_int w + 2208988800, f')"
    by (simp add: jsToNTPTime_def SECS_70YRS_def TWO_32_def Let_def Math_floor_def Math_round_def
        secs_def [symmetric] w_def [symmetric] r_def [symmetric] fr_def [symmetric]
        g_def [symmetric] f'_def [symmetric] s')
  have "\<bar>of_int w + 2208988800 + f' / 2 ^ 32 - (real a + real b / 2 ^ 32)\<bar> \<le> 1 / 1000000"
    using m secs fr g f' unfolding r_def x_def abs_le_iff by (simp add: algebra_simps)
  then show ?thesis
    unfolding m_def [symmetric] j by simp
qed

lemma timeTag_roundtrip_error_ms:
  assumes "0 \<le> t" and "t < 2085978496000"
  shows "\<bar>ntpToJSTime (fst (jsToNTPTime t)) (snd (jsToNTPTime t)) - t\<bar> \<le> 1 / 1000"
proof -
  define secs where "secs = double (t / 1000)"
  define w where "w = \<lfloor>secs\<rfloor>"
  define r where "r = secs - of_int w"
  define fr where "fr = double r"
  define g where "g = double (4294967296 * fr)"
  define F where "F = real_of_int \<lfloor>g + 1 / 2\<rfloor>"
  define d where "d = double (F / 4294967296)"
  define y where "y = double (of_int w + d)"
  define m where "m = double (y * 1000)"
  have "\<bar>t / 1000\<bar> < 2 powi 31"
    using assms unfolding pow2_values by simp
  then have "\<bar>double (t / 1000) - t / 1000\<bar> \<le> 2 powi (31 - 54)"
    by (rule double_error) simp
  then have secs: "\<bar>secs - t / 1000\<bar> \<le> 1 / 8388608"
    by (simp add: secs_def pow2_values)
  have r: "0 \<le> r" "r < 1"
    unfolding r_def w_def by linarith+
  then have "\<bar>r\<bar> < 2 powi 0"
    by simp
  then have "\<bar>double r - r\<bar> \<le> 2 powi (0 - 54)"
    by (rule double_error) simp
  then have fr: "\<bar>fr - r\<bar> \<le> 1 / 18014398509481984"
    by (simp add: fr_def pow2_values)
  have "\<bar>4294967296 * fr\<bar> < 2 powi 33"
    using r fr unfolding pow2_values abs_le_iff abs_less_iff by (simp add: algebra_simps)
  then have "\<bar>double (4294967296 * fr) - 4294967296 * fr\<bar> \<le> 2 powi (33 - 54)"
    by (rule double_error) simp
  then have g: "\<bar>g - 4294967296 * fr\<bar> \<le> 1 / 2097152"
    by (simp add: g_def pow2_values)
  have F: "\<bar>F - g\<bar> \<le> 1 / 2"
    unfolding F_def by linarith
  have "- 1 \<le> secs" and sb: "secs < 2085978497"
    using assms secs unfolding abs_le_iff by (simp_all add: algebra_simps)
  then have "- 1 \<le> w"
    unfolding w_def by (simp add: le_floor_iff)
  then have w1: "- 1 \<le> real_of_int w"
    by linarith
  have "real_of_int w \<le> secs"
    unfolding w_def by linarith
  then have w2: "real_of_int w < 2085978497"
    using sb by linarith
  note wb = w1 w2
  have "\<bar>w + 2208988800\<bar> < 2 ^ 53"
  proof -
    have "real_of_int \<bar>w + 2208988800\<bar> < real_of_int (2 ^ 53)"
      using wb by simp
    then show ?thesis by linarith
  qed
  then have "double (of_int (w + 2208988800)) = of_int (w + 2208988800)"
    by (rule double_of_int)
  then have S: "double (of_int w + 2208988800) = of_int w + 2208988800"
    by simp
  have j: "jsToNTPTime t = (of_int w + 2208988800, F)"
    by (simp add: jsToNTPTime_def SECS_70YRS_def TWO_32_def Let_def Math_floor_def Math_round_def
        secs_def [symmetric] w_def [symmetric] r_def [symmetric] fr_def [symmetric]
        g_def [symmetric] F_def [symmetric] S)
  have "\<bar>w\<bar> < 2 ^ 53"
  proof -
    have "real_of_int \<bar>w\<bar> < real_of_int (2 ^ 53)"
      using wb by simp
    then show ?thesis by linarith
  qed
  then have W: "double (of_int w) = of_int w"
    by (rule double_of_int)
  have "\<bar>F / 4294967296\<bar> < 2 powi 1"
    using r fr g F unfolding pow2_values abs_le_iff abs_less_iff by (simp add: algebra_simps)
  then have "\<bar>double (F / 4294967296) - F / 4294967296\<bar> \<le> 2 powi (1 - 54)"
    by (rule double_error) simp
  then have d: "\<bar>d - F / 4294967296\<bar> \<le> 1 / 9007199254740992"
    by (simp add: d_def pow2_values)
  have "\<bar>of_int w + d\<bar> < 2 powi 32"
    using wb r fr g F d unfolding pow2_values abs_le_iff abs_less_iff by (simp add: algebra_simps)
  then have "\<bar>double (of_int w + d) - (of_int w + d)\<bar> \<le> 2 powi (32 - 54)"
    by (rule double_error) simp
  then have y: "\<bar>y - (of_int w + d)\<bar> \<le> 1 / 4194304"
    by (simp add: y_def pow2_values)
  have "\<bar>y * 1000\<bar> < 2 powi 42"
    using wb r fr g F d y unfolding pow2_values abs_le_iff abs_less_iff by (simp add: algebra_simps)
  then have "\<bar>double (y * 1000) - y * 1000\<bar> \<le> 2 powi (42 - 54)"
    by (rule double_error) simp
  then have m: "\<bar>m - y * 1000\<bar> \<le> 1 / 4096"
    by (simp add: m_def pow2_values)
  have n: "ntpToJSTime (of_int w + 2208988800) F = m"
    by (simp add: ntpToJSTime_def SECS_70YRS_def TWO_32_def Let_def W d_def [symmetric]
        y_def [symmetric] m_def [symmetric])
  have "\<bar>m - t\<bar> \<le> 1 / 1000"
    using secs fr g F d y m unfolding r_def abs_le_iff by (simp add: algebra_simps)
  then show ?thesis
    unfolding j fst_conv snd_conv n .
qed

text \<open>
  C7, as the code has it, for the seconds and the fraction of a time tag, which are 32-bit
  numbers. \<^verbatim>\<open>osc.ntpToJSTime\<close> returns milliseconds since 1970: its result is within
  \<open>1/2000\<close> ms of \<open>((seconds - 2208988800) + fraction / 2^32) * 1000\<close>, the difference
  being the rounding of doubles, and is that number exactly when the fraction is 0.
  \<^verbatim>\<open>osc.jsToNTPTime\<close> takes milliseconds and goes back: a tag of whole seconds comes back
  unchanged, and any tag comes back as a pair that stands for a time within one
  microsecond of the tag's. In the other order, a time \<open>t\<close> in milliseconds whose seconds
  since 1900 fit in 32 bits, \<open>0 \<le> t < 2085978496000\<close>, goes to a pair and comes back within
  one microsecond of \<open>t\<close>.
\<close>

theorem timeTag_conversion:
  fixes secs fr :: "32 word"
  shows "\<bar>ntpToJSTime (real (unat secs)) (real (unat fr)) -
           ((real (unat secs) - 2208988800) + real (unat fr) / 2 ^ 32) * 1000\<bar> \<le> 1 / 2000 \<and>
         ntpToJSTime (real (unat secs)) 0 = (real (unat secs) - 2208988800) * 1000 \<and>
         jsToNTPTime (ntpToJSTime (real (unat secs)) 0) = (real (unat secs), 0) \<and>
         \<bar>fst (jsToNTPTime (ntpToJSTime (real (unat secs)) (real (unat fr)))) +
          snd (jsToNTPTime (ntpToJSTime (real (unat secs)) (real (unat fr)))) / 2 ^ 32 -
          (real (unat secs) + real (unat fr) / 2 ^ 32)\<bar> \<le> 1 / 1000000 \<and>
         (0 \<le> t \<and> t < 2085978496000 \<longrightarrow>
            \<bar>ntpToJSTime (fst (jsToNTPTime t)) (snd (jsToNTPTime t)) - t\<bar> \<le> 1 / 1000)"
proof -
  have a: "unat secs < 2 ^ 32" and b: "unat fr < 2 ^ 32"
    using unsigned_less [of secs] unsigned_less [of fr] by simp_all
  have 1: "\<bar>ntpToJSTime (real (unat secs)) (real (unat fr)) -
           ((real (unat secs) - 2208988800) + real (unat fr) / 2 ^ 32) * 1000\<bar> \<le> 1 / 2000"
    using ntpToJSTime_error [OF a b] by linarith
  have 2: "ntpToJSTime (real (unat secs)) 0 = (real (unat secs) - 2208988800) * 1000"
    using a by (rule whole_seconds_exact(1))
  have 3: "jsToNTPTime (ntpToJSTime (real (unat secs)) 0) = (real (unat secs), 0)"
    unfolding 2 using a by (rule whole_seconds_exact(2))
  have 4: "\<bar>fst (jsToNTPTime (ntpToJSTime (real (unat secs)) (real (unat fr)))) +
          snd (jsToNTPTime (ntpToJSTime (real (unat secs)) (real (unat fr)))) / 2 ^ 32 -
          (real (unat secs) + real (unat fr) / 2 ^ 32)\<bar> \<le> 1 / 1000000"
    using a b by (rule timeTag_roundtrip_error)
  have 5: "0 \<le> t \<and> t < 2085978496000 \<longrightarrow>
            \<bar>ntpToJSTime (fst (jsToNTPTime t)) (snd (jsToNTPTime t)) - t\<bar> \<le> 1 / 1000"
    using timeTag_roundtrip_error_ms [of t] by blast
  show ?thesis
    using 1 2 3 4 5 by blast
qed

lemma ex_time_forward: "ntpToJSTime 3900000000 2147484648 = 1691011200500 + 1 / 4096"
proof -
  have 1: "double (3900000000 - 2208988800) = 1691011200"
    using double_of_int [of 1691011200] by simp
  have 2: "double (2147484648 / 4294967296) = 2147484648 / 4294967296"
    by (subst double_eq [where e = "- 1"]) (simp_all add: roundEven_def Let_def power_int_minus)
  have 3: "double (1691011200 + 2147484648 / 4294967296) = 1691011200 + 2097153 / 4194304"
    by (subst double_eq [where e = 30]) (simp_all add: roundEven_def Let_def power_int_minus)
  have 4: "double ((1691011200 + 2097153 / 4194304) * 1000) = 1691011200500 + 1 / 4096"
    by (subst double_eq [where e = 40]) (simp_all add: roundEven_def Let_def power_int_minus)
  show ?thesis
    unfolding ntpToJSTime_def SECS_70YRS_def TWO_32_def Let_def 1 2 3 4 by (rule refl)
qed

lemma ex_time_back: "jsToNTPTime (1691011200500 + 1 / 4096) = (3900000000, 2147484672)"
proof -
  have 1: "double ((1691011200500 + 1 / 4096) / 1000) = 1691011200 + 2097153 / 4194304"
    by (subst double_eq [where e = 30]) (simp_all add: roundEven_def Let_def power_int_minus)
  have 2: "Math_floor (1691011200 + 2097153 / 4194304) = 1691011200"
    by (simp add: Math_floor_def)
  have 3: "double (1691011200 + 2097153 / 4194304 - 1691011200) = 2097153 / 4194304"
    by (subst double_eq [where e = "- 1"]) (simp_all add: roundEven_def Let_def power_int_minus)
  have 4: "double (1691011200 + 2208988800) = 3900000000"
    using double_of_int [of 3900000000] by simp
  have 5: "double (4294967296 * (2097153 / 4194304)) = 2147484672"
    using double_of_int [of 2147484672] by simp
  have 6: "Math_round 2147484672 = 2147484672"
    by (simp add: Math_round_def)
  show ?thesis
    unfolding jsToNTPTime_def SECS_70YRS_def TWO_32_def Let_def 1 2 3 4 5 6 by (rule refl)
qed

lemma ex_time_one_second: "ntpToJSTime 2208988801 0 = 1000"
  using whole_seconds_exact(1) [of 2208988801] by simp

lemma ex_time_half: "ntpToJSTime 3900000000 2147483648 = 1691011200500"
proof -
  have 1: "double (3900000000 - 2208988800) = 1691011200"
    using double_of_int [of 1691011200] by simp
  have 2: "double (2147483648 / 4294967296) = 1 / 2"
    by (subst double_eq [where e = "- 1"]) (simp_all add: roundEven_def Let_def power_int_minus)
  have 3: "double (1691011200 + 1 / 2) = 1691011200 + 1 / 2"
    by (subst double_eq [where e = 30]) (simp_all add: roundEven_def Let_def power_int_minus)
  have 4: "double ((1691011200 + 1 / 2) * 1000) = 1691011200500"
    using double_of_int [of 1691011200500] by simp
  show ?thesis
    unfolding ntpToJSTime_def SECS_70YRS_def TWO_32_def Let_def 1 2 3 4 by (rule refl)
qed

text \<open>
  The fraction that \<^verbatim>\<open>osc.jsToNTPTime\<close> returns can be \<open>2^32\<close>, one more than a time tag
  holds: for the time 999.9999999999 ms it returns the seconds of the epoch with the
  fraction 4294967296.
\<close>

lemma jsToNTPTime_fraction_overflow:
  "jsToNTPTime (9999999999999 / 10000000000) = (2208988800, 4294967296)"
proof -
  have 1: "double (9999999999999 / 10000000000 / 1000) = 9007199254740091 / 9007199254740992"
    by (subst double_eq [where e = "- 1"]) (simp_all add: roundEven_def Let_def power_int_minus)
  have 2: "Math_floor (9007199254740091 / 9007199254740992) = 0"
    by (simp add: Math_floor_def)
  have 3: "double (9007199254740091 / 9007199254740992 - 0) = 9007199254740091 / 9007199254740992"
    by (subst double_eq [where e = "- 1"]) (simp_all add: roundEven_def Let_def power_int_minus)
  have 4: "double (0 + 2208988800) = 2208988800"
    using double_of_int [of 2208988800] by simp
  have 5: "double (4294967296 * (9007199254740091 / 9007199254740992)) = 9007199254740091 / 2097152"
    by (subst double_eq [where e = 31]) (simp_all add: roundEven_def Let_def power_int_minus)
  have 6: "Math_round (9007199254740091 / 2097152) = 4294967296"
    by (simp add: Math_round_def)
  show ?thesis
    unfolding jsToNTPTime_def SECS_70YRS_def TWO_32_def Let_def 1 2 3 4 5 6 by (rule refl)
qed

text \<open>
  \<^verbatim>\<open>osc.writeTimeTag\<close> stores that fraction with \<^verbatim>\<open>setInt32\<close>, which keeps its low 32
  bits, and carries nothing into the seconds: the time 999.9999999999 ms is written as the
  time tag \<open>(2208988800, 0)\<close>, a second early.
\<close>

lemma native_timeTag_fraction_wraps:
  "writeTimeTag (JObject [(''native'', JNum (9999999999999 / 10000000000))]) =
     Inr (be32 2208988800 @ be32 0)"
proof -
  have "toInt32 4294967296 = 0"
    by (simp add: toInt32_def trunc_def)
  moreover have "toInt32 2208988800 = 2208988800"
    by (simp add: toInt32_def trunc_def)
  ultimately show ?thesis
    by (simp add: writeTimeTag_def bind_def jsToNTPTime_fraction_overflow
        writeInt32_def)
qed

text \<open>
  One second after the 1970 epoch, 1000 ms, goes to the pair \<open>(2208988801, 0)\<close> and comes
  back.
\<close>

theorem timeTag_conversion_witness:
  "(0 :: real) \<le> 1000 \<and> (1000 :: real) < 2085978496000 \<and>
   jsToNTPTime 1000 = (2208988801, 0) \<and>
   \<bar>ntpToJSTime (fst (jsToNTPTime 1000)) (snd (jsToNTPTime 1000)) - 1000\<bar> \<le> 1 / 1000"
proof -
  have 1: "jsToNTPTime 1000 = (2208988801, 0)"
    using whole_seconds_exact(2) [of 2208988801] by simp
  have "(0 :: real) \<le> 1000 \<and> (1000 :: real) < 2085978496000 \<longrightarrow>
        \<bar>ntpToJSTime (fst (jsToNTPTime 1000)) (snd (jsToNTPTime 1000)) - 1000\<bar> \<le> 1 / 1000"
    using timeTag_conversion [where t = 1000 and secs = 0 and fr = 0] by blast
  then have "\<bar>ntpToJSTime (fst (jsToNTPTime 1000)) (snd (jsToNTPTime 1000)) - 1000\<bar> \<le> 1 / 1000"
    by simp
  then show ?thesis
    using 1 by simp
qed

text \<open>
  The claim as stated fails twice. One second after the 1970 epoch the conversion gives
  1000, not \<open>(2208988801 - 2208988800) + 0 / 2^32 = 1\<close>: the result is in milliseconds. And
  the time tag \<open>(3900000000, 2147484648)\<close> goes to 1691011200500.000244140625 ms and comes
  back as \<open>(3900000000, 2147484672)\<close>: the fraction has moved by 24 units of \<open>1 / 2^32\<close> s,
  not by one at most.
\<close>

theorem timeTag_seconds_and_bound_fail:
  "ntpToJSTime 2208988801 0 = 1000 \<and>
   ((2208988801 - 2208988800) + 0 / 2 ^ 32 :: real) \<noteq> 1000 \<and>
   jsToNTPTime (ntpToJSTime 3900000000 2147484648) = (3900000000, 2147484672) \<and>
   \<bar>(3900000000 + 2147484672 / 2 ^ 32) - (3900000000 + 2147484648 / 2 ^ 32) :: real\<bar> > 1 / 2 ^ 32"
  unfolding ex_time_forward ex_time_back ex_time_one_second by simp

section \<open>Type inference for untyped arguments\<close>





section \<open>Decoding: evaluation and the packet header\<close>

lemmas reader_defs = readString_def ofBytes_def window_def decodeString_def examplePlatform_def
  align4_def Let_def readArguments_def readArgument_def argumentReader_def readInt32_def
  getUint32_def getBytes_def bind_def defaults_def readMessageContents_def readMessage_def
  readTimeTag_def

lemma defaults_sel [simp]: "metadata defaults = False" "unpackSingleArgs defaults = True"
  by (simp_all add: defaults_def)

lemma decodePacket_unfold:
  "decodePacket p data opts =
     (case readString p data 0 of
        (header, idx) \<Rightarrow>
          if take 1 header = [0x23] then
            bind (readBundleContents (byteLength data + 2) p data opts idx (int (byteLength data)))
              (\<lambda>(packet, i). Inr packet)
          else if take 1 header = [0x2F] then
            bind (readMessageContents p header data opts idx) (\<lambda>(packet, i). Inr packet)
          else Inl (BadHeader header))"
proof -
  have e: "byteLength data + 3 = Suc (byteLength data + 2)"
    by arith
  show ?thesis
    unfolding decodePacket_def e readPacket.simps
    by (simp add: bind_def split: prod.splits)
qed

lemma readBundleContents_empty:
  assumes "readTimeTag p data idx = Inr (tt, idx1)" and "len \<le> int idx1"
  shows "readBundleContents (Suc (Suc n)) p data opts idx len = Inr (Bundle tt [], idx1)"
  using assms by simp

lemma decodePacket_empty_bundle:
  assumes "readString p data 0 = (header, idx)" and "take 1 header = [0x23]"
    and "readTimeTag p data idx = Inr (tt, idx1)" and "byteLength data \<le> idx1"
  shows "decodePacket p data opts = Inr (Bundle tt [])"
proof -
  have "byteLength data + 2 = Suc (Suc (byteLength data))"
    by simp
  moreover have "readBundleContents (Suc (Suc (byteLength data))) p data opts idx
                   (int (byteLength data)) = Inr (Bundle tt [], idx1)"
    using assms by (intro readBundleContents_empty) simp_all
  ultimately show ?thesis
    using assms by (simp add: decodePacket_unfold bind_def del: readBundleContents.simps)
qed

lemma decodePacket_message:
  assumes "readString p data 0 = (header, idx)" and "take 1 header = [0x2F]"
  shows "decodePacket p data opts =
           bind (readMessageContents p header data opts idx) (\<lambda>(packet, i). Inr packet)"
  using assms by (simp add: decodePacket_unfold)

text \<open>
  C3, as the code has it. \<^verbatim>\<open>osc.readPacket\<close> reads the padded string at the start and looks
  at its first character only. On \<^verbatim>\<open>#\<close> the packet is read as the contents of a bundle,
  whatever follows the \<^verbatim>\<open>#\<close>: a time tag that ends the data, for one, gives the empty
  bundle. On \<^verbatim>\<open>/\<close> the packet is read as a message with the header as its address. Any
  other header, the empty one included, is an error.
\<close>

theorem readPacket_header_dispatch:
  assumes "readString p data 0 = (header, idx)"
  shows "(take 1 header = [0x23] \<longrightarrow>
            decodePacket p data opts =
              bind (readBundleContents (byteLength data + 2) p data opts idx (int (byteLength data)))
                (\<lambda>(packet, i). Inr packet)) \<and>
         (take 1 header = [0x23] \<and> readTimeTag p data idx = Inr (tt, idx1) \<and>
            byteLength data \<le> idx1 \<longrightarrow>
            decodePacket p data opts = Inr (Bundle tt [])) \<and>
         (take 1 header = [0x2F] \<longrightarrow>
            decodePacket p data opts =
              bind (readMessageContents p header data opts idx) (\<lambda>(packet, i). Inr packet)) \<and>
         (take 1 header \<noteq> [0x23] \<and> take 1 header \<noteq> [0x2F] \<longrightarrow>
            decodePacket p data opts = Inl (BadHeader header))"
proof (intro conjI impI)
  show "decodePacket p data opts =
          bind (readBundleContents (byteLength data + 2) p data opts idx (int (byteLength data)))
            (\<lambda>(packet, i). Inr packet)"
    if "take 1 header = [0x23]"
    using that assms by (simp add: decodePacket_unfold)
  show "decodePacket p data opts = Inr (Bundle tt [])"
    if "take 1 header = [0x23] \<and> readTimeTag p data idx = Inr (tt, idx1) \<and> byteLength data \<le> idx1"
    using that assms decodePacket_empty_bundle by blast
  show "decodePacket p data opts =
          bind (readMessageContents p header data opts idx) (\<lambda>(packet, i). Inr packet)"
    if "take 1 header = [0x2F]"
    using that assms by (rule decodePacket_message [rotated])
  show "decodePacket p data opts = Inl (BadHeader header)"
    if "take 1 header \<noteq> [0x23] \<and> take 1 header \<noteq> [0x2F]"
    using that assms by (simp add: decodePacket_unfold)
qed

lemma ex_msg_header:
  "readString examplePlatform (ofBytes [0x2F, 0x61, 0, 0, 0x2C, 0x69, 0, 0, 0, 0, 0, 5]) 0 =
   ([0x2F, 0x61], 4)"
  by (simp add: reader_defs)

lemma ex_msg_arguments:
  "readArguments examplePlatform (ofBytes [0x2F, 0x61, 0, 0, 0x2C, 0x69, 0, 0, 0, 0, 0, 5])
     (Some defaults) 4 = Inr ([JNum 5], 12)"
  by (simp add: reader_defs)

lemma ex_bad_header:
  "readString examplePlatform (ofBytes [0x78, 0, 0, 0]) 0 = ([0x78], 4)"
  by (simp add: reader_defs)

theorem readPacket_header_dispatch_witness:
  "readString examplePlatform
     (ofBytes [0x23, 0x62, 0x61, 0x72, 0, 0, 0, 0, 0, 0, 0, 0, 0, 0, 0, 1]) 0 =
     ([0x23, 0x62, 0x61, 0x72], 8) \<and>
   take 1 [0x23, 0x62, 0x61, 0x72] = [0x23 :: 16 word] \<and>
   decodePacket examplePlatform
     (ofBytes [0x23, 0x62, 0x61, 0x72, 0, 0, 0, 0, 0, 0, 0, 0, 0, 0, 0, 1]) None =
     Inr (Bundle (JObject [(''raw'', JArray [JNum 0, JNum 1]), (''native'', JNum 0)]) []) \<and>
   readString examplePlatform (ofBytes [0x2F, 0x61, 0, 0, 0x2C, 0x69, 0, 0, 0, 0, 0, 5]) 0 =
     ([0x2F, 0x61], 4) \<and>
   take 1 [0x2F, 0x61] = [0x2F :: 16 word] \<and>
   decodePacket examplePlatform (ofBytes [0x2F, 0x61, 0, 0, 0x2C, 0x69, 0, 0, 0, 0, 0, 5])
     (Some defaults) = Inr (Message [0x2F, 0x61] (JNum 5)) \<and>
   readString examplePlatform (ofBytes [0x78, 0, 0, 0]) 0 = ([0x78], 4) \<and>
   take 1 [0x78] \<noteq> [0x23 :: 16 word] \<and> take 1 [0x78] \<noteq> [0x2F :: 16 word] \<and>
   decodePacket examplePlatform (ofBytes [0x78, 0, 0, 0]) None = Inl (BadHeader [0x78])"
proof -
  let ?b = "ofBytes [0x23, 0x62, 0x61, 0x72, 0, 0, 0, 0, 0, 0, 0, 0, 0, 0, 0, 1]"
  let ?m = "ofBytes [0x2F, 0x61, 0, 0, 0x2C, 0x69, 0, 0, 0, 0, 0, 5]"
  let ?x = "ofBytes [0x78, 0, 0, 0]"
  let ?tt = "JObject [(''raw'', JArray [JNum 0, JNum 1]), (''native'', JNum 0)]"
  have hb: "readString examplePlatform ?b 0 = ([0x23, 0x62, 0x61, 0x72], 8)"
    by (simp add: reader_defs)
  have tb: "readTimeTag examplePlatform ?b 8 = Inr (?tt, 16)"
    by (simp add: reader_defs)
  have lb: "byteLength ?b \<le> 16"
    by (simp add: ofBytes_def)
  have b1: "take 1 [0x23, 0x62, 0x61, 0x72] = [0x23 :: 16 word]"
    by simp
  have m1: "take 1 [0x2F, 0x61] = [0x2F :: 16 word]"
    by simp
  have x1: "take 1 [0x78] \<noteq> [0x23 :: 16 word] \<and> take 1 [0x78] \<noteq> [0x2F :: 16 word]"
    by simp
  have rb: "decodePacket examplePlatform ?b None = Inr (Bundle ?tt [])"
    using readPacket_header_dispatch [OF hb, where tt = ?tt and ?idx1.0 = 16 and opts = None] b1 tb lb by blast
  have "decodePacket examplePlatform ?m (Some defaults) =
          bind (readMessageContents examplePlatform [0x2F, 0x61] ?m (Some defaults) 4)
            (\<lambda>(packet, i). Inr packet)"
    using readPacket_header_dispatch [OF ex_msg_header, where opts = "Some defaults"] m1 by blast
  then have rm: "decodePacket examplePlatform ?m (Some defaults) = Inr (Message [0x2F, 0x61] (JNum 5))"
    by (simp add: readMessageContents_def ex_msg_arguments bind_def)
  have rx: "decodePacket examplePlatform ?x None = Inl (BadHeader [0x78])"
    using readPacket_header_dispatch [OF ex_bad_header, where opts = None] x1 by blast
  show ?thesis
    using hb b1 rb ex_msg_header m1 rm ex_bad_header x1 rx by blast
qed


text \<open>
  The claim as stated fails: the header \<^verbatim>\<open>#foo\<close> is not the literal \<^verbatim>\<open>#bundle\<close>, and the
  packet decodes to a bundle.
\<close>

lemma ex_foo_header:
  "readString examplePlatform
     (ofBytes [0x23, 0x66, 0x6F, 0x6F, 0, 0, 0, 0, 0, 0, 0, 0, 0, 0, 0, 1]) 0 =
   ([0x23, 0x66, 0x6F, 0x6F], 8)"
  by (simp add: reader_defs)

lemma ex_foo_timeTag:
  "readTimeTag examplePlatform
     (ofBytes [0x23, 0x66, 0x6F, 0x6F, 0, 0, 0, 0, 0, 0, 0, 0, 0, 0, 0, 1]) 8 =
   Inr (JObject [(''raw'', JArray [JNum 0, JNum 1]), (''native'', JNum 0)], 16)"
  by (simp add: reader_defs)

theorem hash_header_not_checked:
  "decodePacket examplePlatform
     (ofBytes [0x23, 0x66, 0x6F, 0x6F, 0, 0, 0, 0, 0, 0, 0, 0, 0, 0, 0, 1]) (Some defaults) =
     Inr (Bundle (JObject [(''raw'', JArray [JNum 0, JNum 1]), (''native'', JNum 0)]) []) \<and>
   [0x23, 0x66, 0x6F, 0x6F] \<noteq> str ''#bundle''"
  using decodePacket_empty_bundle [OF ex_foo_header _ ex_foo_timeTag]
  by (simp add: ofBytes_def str_def)

section \<open>Decoding: arrays of arguments\<close>

lemma indexOf_None: "x \<notin> set ys \<Longrightarrow> indexOf ys x = None"
  by (induction ys) auto

lemma indexOf_append: "x \<notin> set as \<Longrightarrow> indexOf (as @ x # bs) x = Some (length as)"
  by (induction as) auto

lemma unclosed_array_fails:
  "0x5B \<in> set ts \<Longrightarrow> 0x5D \<notin> set ts \<Longrightarrow> \<exists>e. readArgumentsIntoArray p ts tts dv opts idx = Inl e"
proof (induction ts arbitrary: idx)
  case Nil
  then show ?case by simp
next
  case (Cons t ts)
  show ?case
  proof (cases "t = 0x5B")
    case True
    then show ?thesis using Cons.prems by (simp add: indexOf_None)
  next
    case False
    then have "0x5B \<in> set ts" "0x5D \<notin> set ts" using Cons.prems by auto
    then have ih: "\<exists>e. readArgumentsIntoArray p ts tts dv opts i = Inl e" for i
      using Cons.IH by blast
    show ?thesis
    proof (cases "readArgument p t tts dv opts idx")
      case (Inl e)
      then show ?thesis using False by simp
    next
      case (Inr r)
      obtain arg i where r: "r = (arg, i)"
        by (cases r)
      obtain e where "readArgumentsIntoArray p ts tts dv opts i = Inl e"
        using ih by blast
      then show ?thesis using False Inr r by simp
    qed
  qed
qed

lemma nested_array_fails:
  assumes "0x5D \<notin> set xs" and "0x5D \<notin> set ys"
  shows "\<exists>e. readArgumentsIntoArray p (0x5B # xs @ 0x5B # ys @ 0x5D # zs) tts dv opts idx = Inl e"
proof -
  let ?as = "xs @ 0x5B # ys"
  have i: "indexOf (?as @ 0x5D # zs) 0x5D = Some (length ?as)"
    using assms by (intro indexOf_append) auto
  have "\<exists>e. readArgumentsIntoArray p ?as tts dv opts idx = Inl e"
    using assms by (intro unclosed_array_fails) auto
  then show ?thesis
    using i by (auto simp del: readArgumentsIntoArray.simps(2) simp add: readArgumentsIntoArray.simps(2)[of p "0x5B"])
qed

text \<open>
  C2 at a failing input: the type tags \<^verbatim>\<open>,[i[ii]]\<close> followed by the three integers 1, 2
  and 3. The tags of the outer array are cut at the first \<^verbatim>\<open>]\<close>, so the inner \<^verbatim>\<open>[\<close> is
  left without one and the decoder throws instead of returning \<open>[[1, [2, 3]]]\<close>.
\<close>

theorem nested_array_unterminated: "readArguments examplePlatform
     (ofBytes [0x2C, 0x5B, 0x69, 0x5B, 0x69, 0x69, 0x5D, 0x5D, 0, 0, 0, 0,
               0, 0, 0, 1, 0, 0, 0, 2, 0, 0, 0, 3]) (Some defaults) 0 =
   Inl (UnterminatedArray (str '',[i[ii]]''))"
  by (simp add: reader_defs str_def)

lemma flat_array_decodes: "readArguments examplePlatform
     (ofBytes [0x2C, 0x5B, 0x69, 0x69, 0x5D, 0, 0, 0,
               0, 0, 0, 1, 0, 0, 0, 2]) (Some defaults) 0 =
   Inr ([JArray [JNum 1, JNum 2]], 16)"
  by (simp add: reader_defs)

section \<open>Decoding: a single argument\<close>

text \<open>
  C10. \<^verbatim>\<open>osc.readMessage\<close> without options decodes with \<^verbatim>\<open>osc.defaults\<close>, where
  \<^verbatim>\<open>unpackSingleArgs\<close> is true: when the type tags yield exactly one argument the \<^verbatim>\<open>args\<close>
  field is that argument, and with none or with two or more it is the array of them.
\<close>

theorem readMessage_unpacks_single_argument:
  assumes "readString p data 0 = (addr, idx)" and "take 1 addr = [0x2F]"
    and "readArguments p data (Some defaults) idx = Inr (argv, idx1)"
  shows "readMessage p data None =
           Inr (Message addr (if length argv = 1 then argv ! 0 else JArray argv))"
  using assms by (simp add: readMessage_def readMessageContents_def bind_def)

lemma ex_msg2_header:
  "readString examplePlatform
     (ofBytes [0x2F, 0x61, 0, 0, 0x2C, 0x69, 0x69, 0, 0, 0, 0, 5, 0, 0, 0, 6]) 0 = ([0x2F, 0x61], 4)"
  by (simp add: reader_defs)

lemma ex_msg2_arguments:
  "readArguments examplePlatform
     (ofBytes [0x2F, 0x61, 0, 0, 0x2C, 0x69, 0x69, 0, 0, 0, 0, 5, 0, 0, 0, 6])
     (Some defaults) 4 = Inr ([JNum 5, JNum 6], 16)"
  by (simp add: reader_defs)

lemma ex_msg0_header:
  "readString examplePlatform (ofBytes [0x2F, 0x61, 0, 0, 0x2C, 0, 0, 0]) 0 = ([0x2F, 0x61], 4)"
  by (simp add: reader_defs)

lemma ex_msg0_arguments:
  "readArguments examplePlatform (ofBytes [0x2F, 0x61, 0, 0, 0x2C, 0, 0, 0]) (Some defaults) 4 =
   Inr ([], 8)"
  by (simp add: reader_defs)

theorem readMessage_unpacks_single_argument_witness:
  "readMessage examplePlatform (ofBytes [0x2F, 0x61, 0, 0, 0x2C, 0x69, 0, 0, 0, 0, 0, 5]) None =
     Inr (Message [0x2F, 0x61] (JNum 5)) \<and>
   readMessage examplePlatform
     (ofBytes [0x2F, 0x61, 0, 0, 0x2C, 0x69, 0x69, 0, 0, 0, 0, 5, 0, 0, 0, 6]) None =
     Inr (Message [0x2F, 0x61] (JArray [JNum 5, JNum 6])) \<and>
   readMessage examplePlatform (ofBytes [0x2F, 0x61, 0, 0, 0x2C, 0, 0, 0]) None =
     Inr (Message [0x2F, 0x61] (JArray []))"
  using readMessage_unpacks_single_argument [OF ex_msg_header _ ex_msg_arguments] readMessage_unpacks_single_argument [OF ex_msg2_header _ ex_msg2_arguments]
    readMessage_unpacks_single_argument [OF ex_msg0_header _ ex_msg0_arguments]
  by simp

section \<open>Encoding typed packets\<close>

lemma trunc_of_int [simp]: "trunc (of_int n) = n"
  by (simp add: trunc_def)

lemma trunc_signed [simp]: "trunc (signed w) = sint w"
  using trunc_of_int [of "sint w"] by (simp only: of_int_sint)

lemma trunc_unsigned [simp]: "trunc (unsigned w) = uint w"
  using trunc_of_int [of "uint w"] by (simp only: of_int_uint)

lemma trunc_of_nat [simp]: "trunc (of_nat n) = int n"
  using trunc_of_int [of "int n"] by simp

lemma toInt32_signed [simp]: "toInt32 (signed w) = w"
  by (simp add: toInt32_def)

lemma toInt32_unsigned [simp]: "toInt32 (unsigned w) = w"
  by (simp add: toInt32_def)

lemma toInt32_of_nat [simp]: "toInt32 (of_nat n) = of_nat n"
  by (simp add: toInt32_def)

lemma toUint8_unsigned [simp]: "toUint8 (unsigned b) = b"
  by (simp add: toUint8_def)

lemma Math_round_unsigned [simp]: "Math_round (unsigned (b :: byte)) = unsigned b"
proof -
  have "\<lfloor>real_of_int (uint b) + 1 / 2\<rfloor> = uint b"
    by (intro floor_unique) simp_all
  then have "Math_round (of_int (uint b)) = of_int (uint b)"
    by (simp only: Math_round_def)
  then show ?thesis
    by (simp only: of_int_uint)
qed

lemma Math_round_of_nat [simp]: "Math_round (of_nat n) = of_nat n"
proof -
  have "\<lfloor>real n + 1 / 2\<rfloor> = int n"
    by (intro floor_unique) simp_all
  then show ?thesis by (simp add: Math_round_def)
qed

lemma sint_of_nat_small:
  assumes "n < 2 ^ 31"
  shows "sint (of_nat n :: 32 word) = int n"
proof -
  have "signed_take_bit 31 (int n) = int n"
    using assms by (intro signed_take_bit_int_eq_self) simp_all
  then show ?thesis
    by (simp add: signed_of_nat)
qed

lemma word_and_not_3: "(word_of_nat m :: 32 word) AND NOT 3 = word_of_nat (m div 4 * 4)"
proof -
  have 3: "(3 :: 32 word) = mask 2"
    by (simp add: mask_eq_exp_minus_1)
  have m: "m div 4 * 4 = push_bit 2 (drop_bit 2 m)"
    by (simp add: push_bit_eq_mult drop_bit_eq_div)
  have e: "Suc (Suc (i - 2)) = i" if "\<not> i < 2" for i
    using that by arith
  have e2: "Suc (Suc (i - 2)) = i" if "2 \<le> i" for i
    using that by arith
  show ?thesis
    unfolding 3 m
    by (rule bit_word_eqI) (auto simp add: bit_simps e e2)
qed

text \<open>Below \<open>2^31 - 3\<close> the padded length of the source is the multiple of four above.\<close>

lemma paddedLength_small:
  assumes "n + 3 < 2 ^ 31"
  shows "paddedLength n = int (align4 n)"
proof -
  have "(n + 3) div 4 * 4 < 2 ^ 31"
    using assms by simp
  then show ?thesis
    unfolding paddedLength_def word_and_not_3 align4_def by (rule sint_of_nat_small)
qed

lemma align4_ge: "m \<le> align4 m"
  unfolding align4_def by presburger

lemma length_zeros [simp]: "length (zeros n) = n"
  by (simp add: zeros_def)

lemma wireString_ok:
  assumes "stringOk p s"
  defines "e \<equiv> encodeString p (s @ [0])"
  shows "wireString p s = butlast e @ 0 # zeros (align4 (length e) - length e)"
    and "length (wireString p s) = align4 (length e)"
proof -
  have ne: "e \<noteq> []" and la: "last e = 0"
    using assms by (simp_all add: stringOk_def Let_def)
  then have "e = butlast e @ [0]"
    by (metis append_butlast_last_id)
  then show "wireString p s = butlast e @ 0 # zeros (align4 (length e) - length e)"
    unfolding wireString_def Let_def e_def [symmetric] by (metis append.assoc append_Cons append_Nil)
  show "length (wireString p s) = align4 (length e)"
    unfolding wireString_def Let_def e_def [symmetric] using align4_ge [of "length e"] by simp
qed

lemma writeStringUnits_wire:
  assumes "stringOk p s"
  shows "writeStringUnits p s = Inr (wireString p s)"
proof -
  define e where "e = encodeString p (s @ [0])"
  define A where "A = align4 (length e)"
  have ne: "e \<noteq> []" and b: "length e + 3 < 2 ^ 31"
    using assms by (simp_all add: stringOk_def Let_def e_def)
  obtain m where m: "length e = Suc m"
    using ne by (cases e) auto
  have pl: "paddedLength (length e) = int A"
    unfolding A_def using b by (rule paddedLength_small)
  have t: "take (length e - 1) e = butlast e"
    by (simp add: butlast_conv_take)
  have k: "A - (length e - 1) = Suc (A - length e)"
    unfolding A_def using align4_ge [of "length e"] m by arith
  have z: "zeros (Suc (A - length e)) = 0 # zeros (A - length e)"
    by (simp add: zeros_def)
  have l: "length (butlast e @ 0 # zeros (A - length e)) = A"
    unfolding A_def using align4_ge [of "length e"] m by simp
  have w: "wireString p s = butlast e @ 0 # zeros (A - length e)"
    using wireString_ok(1) [OF assms] by (simp add: e_def A_def)
  have "writeStringUnits p s =
          Inr (take (nat (int A)) (take (length e - 1) e @ zeros (nat (int A) - (length e - 1))))"
    unfolding writeStringUnits_def Let_def e_def [symmetric] pl by simp
  also have "\<dots> = Inr (take A (butlast e @ 0 # zeros (A - length e)))"
    by (simp only: nat_int t k z)
  also have "\<dots> = Inr (wireString p s)"
    using l by (simp only: w [symmetric] take_all order_refl)
  finally show ?thesis .
qed

lemma writeBlob_wire:
  assumes "length bs + 3 < 2 ^ 31"
  shows "writeBlob (JUint8Array bs) = Inr (wireScalar p (Blob bs))"
proof -
  have pl: "paddedLength (length bs) = int (align4 (length bs))"
    using assms by (rule paddedLength_small)
  have g: "length bs \<le> align4 (length bs)"
    by (rule align4_ge)
  have n: "nat (int (align4 (length bs)) + 4) - 4 - length bs = align4 (length bs) - length bs"
    by simp
  have n2: "nat (int (align4 (length bs)) + 4) - (4 + length bs) = align4 (length bs) - length bs"
    by simp
  show ?thesis
    using g by (simp add: writeBlob_def Let_def bind_def pl n n2)
qed

lemma writeTimeTag_value [simp]: "writeTimeTag (timeTagValue now secs fr) = Inr (be32 secs @ be32 fr)"
  by (simp add: writeTimeTag_def timeTagValue_def bind_def writeInt32_def)

lemma writeArgument_scalar:
  assumes "okScalar p s"
  shows "\<exists>ps. writeArgument p (jsScalar now s) dc =
          Inr ([tagOf s], dc\<lparr>parts := parts dc @ ps,
                             dcByteLength := dcByteLength dc + length (concat ps)\<rparr>) \<and>
        concat ps = wireScalar p s"
proof (cases s)
  case BoolTrue
  then show ?thesis by (intro exI [of _ "[]"]) (simp add: jsScalar_def argumentWriter_def)
next
  case BoolFalse
  then show ?thesis by (intro exI [of _ "[]"]) (simp add: jsScalar_def argumentWriter_def)
next
  case Null
  then show ?thesis by (intro exI [of _ "[]"]) (simp add: jsScalar_def argumentWriter_def)
next
  case Impulse
  then show ?thesis by (intro exI [of _ "[]"]) (simp add: jsScalar_def argumentWriter_def)
next
  case (Color r g b a)
  then show ?thesis
    by (intro exI [of _ "[wireScalar p s]"])
       (simp add: jsScalar_def argumentWriter_def addDataPart_def writeColor_def colorChannel_def
          bind_def)
next
  case (String x)
  then have "writeStringUnits p x = Inr (wireString p x)"
    using assms by (intro writeStringUnits_wire) simp
  then show ?thesis
    using String
    by (intro exI [of _ "[wireScalar p s]"]) (simp add: jsScalar_def argumentWriter_def addDataPart_def)
next
  case (Symbol x)
  then have "writeStringUnits p x = Inr (wireString p x)"
    using assms by (intro writeStringUnits_wire) simp
  then show ?thesis
    using Symbol
    by (intro exI [of _ "[wireScalar p s]"]) (simp add: jsScalar_def argumentWriter_def addDataPart_def)
next
  case (Blob bs)
  then have "writeBlob (JUint8Array bs) = Inr (wireScalar p (Blob bs))"
    using assms by (intro writeBlob_wire) simp
  then show ?thesis
    using Blob
    by (intro exI [of _ "[wireScalar p s]"])
       (simp add: jsScalar_def argumentWriter_def addDataPart_def del: wireScalar.simps)
qed (intro exI [of _ "[wireScalar p s]"],
     simp add: jsScalar_def argumentWriter_def addDataPart_def writeInt32_def writeInt64_def
       writeFloat32_def writeFloat64_def writeMIDIBytes_def bind_def zeros_def Let_def)+

lemma writeArgumentList_scalars:
  assumes "list_all (okScalar p) ss"
  shows "\<exists>ps. writeArgumentList p (map (jsScalar now) ss) dc =
          Inr (map tagOf ss, dc\<lparr>parts := parts dc @ ps,
                                dcByteLength := dcByteLength dc + length (concat ps)\<rparr>) \<and>
        concat ps = concat (map (wireScalar p) ss)"
  using assms
proof (induction ss arbitrary: dc)
  case Nil
  show ?case by (intro exI [of _ "[]"]) simp
next
  case (Cons s ss)
  have oks: "okScalar p s" "list_all (okScalar p) ss"
    using Cons.prems by simp_all
  obtain ps1 where 1: "writeArgument p (jsScalar now s) dc =
      Inr ([tagOf s], dc\<lparr>parts := parts dc @ ps1,
                         dcByteLength := dcByteLength dc + length (concat ps1)\<rparr>)"
    and c1: "concat ps1 = wireScalar p s"
    using writeArgument_scalar [OF oks(1)] by blast
  let ?dc1 = "dc\<lparr>parts := parts dc @ ps1, dcByteLength := dcByteLength dc + length (concat ps1)\<rparr>"
  obtain ps2 where 2: "writeArgumentList p (map (jsScalar now) ss) ?dc1 =
      Inr (map tagOf ss, ?dc1\<lparr>parts := parts ?dc1 @ ps2,
                              dcByteLength := dcByteLength ?dc1 + length (concat ps2)\<rparr>)"
    and c2: "concat ps2 = concat (map (wireScalar p) ss)"
    using Cons.IH [OF oks(2)] by blast
  show ?case
    using 1 2 c1 c2 by (intro exI [of _ "ps1 @ ps2"]) simp
qed

lemma writeArgument_argument:
  assumes "okArgument p a"
  shows "\<exists>ps. writeArgument p (jsArgument now a) dc =
          Inr (tagsOf a, dc\<lparr>parts := parts dc @ ps,
                            dcByteLength := dcByteLength dc + length (concat ps)\<rparr>) \<and>
        concat ps = wireArgument p a"
proof (cases a)
  case (Scalar s)
  then show ?thesis using assms writeArgument_scalar [of p s now dc] by simp
next
  case (Array ss)
  then have "list_all (okScalar p) ss"
    using assms by simp
  then obtain ps where "writeArgumentList p (map (jsScalar now) ss) dc =
      Inr (map tagOf ss, dc\<lparr>parts := parts dc @ ps,
                            dcByteLength := dcByteLength dc + length (concat ps)\<rparr>)"
    and "concat ps = concat (map (wireScalar p) ss)"
    using writeArgumentList_scalars by blast
  then show ?thesis using Array by (intro exI [of _ ps]) simp
qed

lemma writeArgumentList_arguments:
  assumes "list_all (okArgument p) argv"
  shows "\<exists>ps. writeArgumentList p (map (jsArgument now) argv) dc =
          Inr (concat (map tagsOf argv), dc\<lparr>parts := parts dc @ ps,
                                            dcByteLength := dcByteLength dc + length (concat ps)\<rparr>) \<and>
        concat ps = concat (map (wireArgument p) argv)"
  using assms
proof (induction argv arbitrary: dc)
  case Nil
  show ?case by (intro exI [of _ "[]"]) simp
next
  case (Cons a argv)
  have oks: "okArgument p a" "list_all (okArgument p) argv"
    using Cons.prems by simp_all
  obtain ps1 where 1: "writeArgument p (jsArgument now a) dc =
      Inr (tagsOf a, dc\<lparr>parts := parts dc @ ps1,
                        dcByteLength := dcByteLength dc + length (concat ps1)\<rparr>)"
    and c1: "concat ps1 = wireArgument p a"
    using writeArgument_argument [OF oks(1)] by blast
  let ?dc1 = "dc\<lparr>parts := parts dc @ ps1, dcByteLength := dcByteLength dc + length (concat ps1)\<rparr>"
  obtain ps2 where 2: "writeArgumentList p (map (jsArgument now) argv) ?dc1 =
      Inr (concat (map tagsOf argv), ?dc1\<lparr>parts := parts ?dc1 @ ps2,
                              dcByteLength := dcByteLength ?dc1 + length (concat ps2)\<rparr>)"
    and c2: "concat ps2 = concat (map (wireArgument p) argv)"
    using Cons.IH [OF oks(2)] by blast
  show ?case
    using 1 2 c1 c2 by (intro exI [of _ "ps1 @ ps2"]) simp
qed

lemma valueOf_defined [simp]: "valueOf now s \<noteq> JUndefined"
  by (cases s) (simp_all add: timeTagValue_def)

lemma annotateArgument_scalar [simp]: "annotateArgument (jsScalar now s) = Inr (jsScalar now s)"
  by (simp add: jsScalar_def)

lemma annotateArguments_scalars [simp]:
  "annotateArguments (map (jsScalar now) ss) = Inr (map (jsScalar now) ss)"
  by (induction ss) simp_all

lemma annotateArgument_argument [simp]: "annotateArgument (jsArgument now a) = Inr (jsArgument now a)"
  by (cases a) simp_all

lemma annotateArguments_arguments [simp]:
  "annotateArguments (map (jsArgument now) argv) = Inr (map (jsArgument now) argv)"
  by (induction argv) simp_all

lemma collectMessageParts_wire:
  assumes "okPacket p (OscMessage addr argv)"
  shows "\<exists>dc. collectMessageParts p addr (JArray (map (jsArgument now) argv)) opt = Inr dc \<and>
           concat (parts dc) = wirePacket p (OscMessage addr argv) \<and>
           dcByteLength dc = length (wirePacket p (OscMessage addr argv))"
proof -
  let ?dc0 = "addDataPart (wireString p addr) emptyCollection"
  have ok: "stringOk p addr" "stringOk p ([0x2C] @ concat (map tagsOf argv))"
    "list_all (okArgument p) argv"
    using assms by simp_all
  obtain ps where w: "writeArgumentList p (map (jsArgument now) argv) ?dc0 =
      Inr (concat (map tagsOf argv), ?dc0\<lparr>parts := parts ?dc0 @ ps,
                              dcByteLength := dcByteLength ?dc0 + length (concat ps)\<rparr>)"
    and c: "concat ps = concat (map (wireArgument p) argv)"
    using writeArgumentList_arguments [OF ok(3)] by blast
  show ?thesis
    using w c writeStringUnits_wire [OF ok(1)] writeStringUnits_wire [OF ok(2)]
    by (simp add: collectMessageParts_def collectArguments_def bind_def addDataPart_def
        emptyCollection_def Let_def)
qed

lemma collectPackets_wire:
  assumes "\<And>x. x \<in> set ps \<Longrightarrow>
      \<exists>pc. (case jsPacket now x of
               Message addr argv \<Rightarrow>
                 if addr \<noteq> [] then collectMessageParts p addr argv opt
                 else collectBundlePackets p (jsPacket now x) opt
             | Bundle tt qs \<Rightarrow> collectBundlePackets p (jsPacket now x) opt) = Inr pc \<and>
            concat (parts pc) = wirePacket p x \<and> dcByteLength pc = length (wirePacket p x)"
  shows "\<exists>dc1. collectPackets p (map (jsPacket now) ps) opt dc = Inr dc1 \<and>
           concat (parts dc1) = concat (parts dc) @
             concat (map (\<lambda>x. be32 (of_nat (length (wirePacket p x))) @ wirePacket p x) ps) \<and>
           dcByteLength dc1 = dcByteLength dc +
             length (concat (map (\<lambda>x. be32 (of_nat (length (wirePacket p x))) @ wirePacket p x) ps))"
  using assms
proof (induction ps arbitrary: dc)
  case Nil
  show ?case by simp
next
  case (Cons x ps)
  obtain pc where pc: "(case jsPacket now x of
               Message addr argv \<Rightarrow>
                 if addr \<noteq> [] then collectMessageParts p addr argv opt
                 else collectBundlePackets p (jsPacket now x) opt
             | Bundle tt qs \<Rightarrow> collectBundlePackets p (jsPacket now x) opt) = Inr pc"
    and c: "concat (parts pc) = wirePacket p x" and l: "dcByteLength pc = length (wirePacket p x)"
    using Cons.prems [of x] by auto
  let ?dc3 = "(addDataPart (be32 (toInt32 (of_nat (dcByteLength pc))))
                 (dc\<lparr>dcByteLength := dcByteLength dc + dcByteLength pc\<rparr>))
              \<lparr>parts := parts (addDataPart (be32 (toInt32 (of_nat (dcByteLength pc))))
                 (dc\<lparr>dcByteLength := dcByteLength dc + dcByteLength pc\<rparr>)) @ parts pc\<rparr>"
  have step: "collectPackets p (map (jsPacket now) (x # ps)) opt dc =
                collectPackets p (map (jsPacket now) ps) opt ?dc3"
    using pc by (simp add: Let_def)
  obtain dc1 where r: "collectPackets p (map (jsPacket now) ps) opt ?dc3 = Inr dc1"
    and rc: "concat (parts dc1) = concat (parts ?dc3) @
             concat (map (\<lambda>x. be32 (of_nat (length (wirePacket p x))) @ wirePacket p x) ps)"
    and rl: "dcByteLength dc1 = dcByteLength ?dc3 +
             length (concat (map (\<lambda>x. be32 (of_nat (length (wirePacket p x))) @ wirePacket p x) ps))"
    using Cons.IH [of ?dc3] Cons.prems by auto
  show ?case
    unfolding step using r rc rl c l by (simp add: addDataPart_def)
qed

lemma collect_wire:
  assumes "okPacket p x"
  shows "\<exists>pc. (case jsPacket now x of
               Message addr argv \<Rightarrow>
                 if addr \<noteq> [] then collectMessageParts p addr argv opt
                 else collectBundlePackets p (jsPacket now x) opt
             | Bundle tt qs \<Rightarrow> collectBundlePackets p (jsPacket now x) opt) = Inr pc \<and>
            concat (parts pc) = wirePacket p x \<and> dcByteLength pc = length (wirePacket p x)"
  using assms
proof (induction x)
  case (OscMessage addr argv)
  then have "addr \<noteq> []" by auto
  then show ?case
    using collectMessageParts_wire [OF OscMessage.prems, of now opt] by simp
next
  case (OscBundle secs fr ps)
  have "\<And>x. x \<in> set ps \<Longrightarrow> okPacket p x"
    using OscBundle.prems by (auto simp: list_all_iff)
  then have ih: "\<And>x. x \<in> set ps \<Longrightarrow>
      \<exists>pc. (case jsPacket now x of
               Message addr argv \<Rightarrow>
                 if addr \<noteq> [] then collectMessageParts p addr argv opt
                 else collectBundlePackets p (jsPacket now x) opt
             | Bundle tt qs \<Rightarrow> collectBundlePackets p (jsPacket now x) opt) = Inr pc \<and>
            concat (parts pc) = wirePacket p x \<and> dcByteLength pc = length (wirePacket p x)"
    using OscBundle.IH by blast
  have h: "writeStringUnits p (str ''#bundle'') = Inr (wireString p (str ''#bundle''))"
    using OscBundle.prems by (intro writeStringUnits_wire) simp
  let ?dc = "addDataPart (be32 secs @ be32 fr)
               (addDataPart (wireString p (str ''#bundle'')) emptyCollection)"
  obtain dc1 where "collectPackets p (map (jsPacket now) ps) opt ?dc = Inr dc1"
    and "concat (parts dc1) = concat (parts ?dc) @
             concat (map (\<lambda>x. be32 (of_nat (length (wirePacket p x))) @ wirePacket p x) ps)"
    and "dcByteLength dc1 = dcByteLength ?dc +
             length (concat (map (\<lambda>x. be32 (of_nat (length (wirePacket p x))) @ wirePacket p x) ps))"
    using collectPackets_wire [OF ih, of ps ?dc] by auto
  then show ?case
    using h by (simp add: addDataPart_def emptyCollection_def)
qed

lemma writePacket_wire:
  assumes "okPacket p x"
  shows "writePacket p (jsPacket now x) wopts = Inr (wirePacket p x)"
proof -
  define wopt where "wopt = (case wopts of None \<Rightarrow> defaults | Some opt \<Rightarrow> opt)"
  obtain pc where pc: "(case jsPacket now x of
               Message addr argv \<Rightarrow>
                 if addr \<noteq> [] then collectMessageParts p addr argv wopt
                 else collectBundlePackets p (jsPacket now x) wopt
             | Bundle tt qs \<Rightarrow> collectBundlePackets p (jsPacket now x) wopt) = Inr pc"
    and c: "concat (parts pc) = wirePacket p x" and l: "dcByteLength pc = length (wirePacket p x)"
    using collect_wire [OF assms] by blast
  have j: "joinParts pc = Inr (wirePacket p x)"
    using c l by (simp add: joinParts_def zeros_def)
  show ?thesis
  proof (cases x)
    case (OscMessage addr argv)
    then have "take 1 addr = [0x2F]" "addr \<noteq> []"
      using assms by auto
    then show ?thesis
      using pc j OscMessage
      by (simp add: writePacket_def writeMessage_def isValidMessage_def bind_def wopt_def)
  next
    case (OscBundle secs fr ps)
    then show ?thesis
      using pc j
      by (simp add: writePacket_def writeBundle_def isValidMessage_def isValidBundle_def bind_def
          timeTagValue_def wopt_def)
  qed
qed

section \<open>Decoding typed packets\<close>

lemma ofBytes_simps [simp]:
  "window (ofBytes bs) = bs" "buffer (ofBytes bs) = bs" "byteLength (ofBytes bs) = length bs"
  by (simp_all add: ofBytes_def window_def)

lemma getBytes_at:
  "n = length X \<Longrightarrow> getBytes (ofBytes (pre @ X @ post)) (length pre) n = Inr X"
  by (simp add: getBytes_def)

lemma getUint32_at [simp]: "getUint32 (ofBytes (pre @ be32 w @ post)) (length pre) = Inr w"
  by (simp add: getUint32_def getBytes_at bind_def)

lemma getUint64_at [simp]: "getUint64 (ofBytes (pre @ be64 w @ post)) (length pre) = Inr w"
  by (simp add: getUint64_def getBytes_at bind_def)

lemma readInt32_at [simp]:
  "readInt32 (ofBytes (pre @ be32 w @ post)) (length pre) = Inr (sint w, length pre + 4)"
  by (simp add: readInt32_def bind_def)

lemma align4_add: "4 dvd n \<Longrightarrow> align4 (n + m) = n + align4 m"
  unfolding align4_def by presburger

lemma align4_dvd [simp]: "4 dvd align4 m"
  by (simp add: align4_def)

lemma wireString_dvd: "stringOk p s \<Longrightarrow> 4 dvd length (wireString p s)"
  by (simp add: wireString_ok(2))

lemma readString_at:
  assumes "stringOk p s" and "4 dvd length pre"
  shows "readString p (ofBytes (pre @ wireString p s @ post)) (length pre) =
           (s, length pre + length (wireString p s))"
proof -
  define e where "e = encodeString p (s @ [0])"
  define z where "z = zeros (align4 (length e) - length e) @ post"
  define c where "c = butlast e"
  have e: "e \<noteq> []" "0 \<notin> set c" "decodeString p c = s"
    using assms(1) by (simp_all add: stringOk_def Let_def e_def c_def)
  have len: "length e = Suc (length c)"
    using e(1) by (simp add: c_def)
  have w: "wireString p s @ post = c @ 0 # z"
    using wireString_ok(1) [OF assms(1)] by (simp add: e_def z_def c_def)
  have tw: "takeWhile (\<lambda>b. b \<noteq> 0) (c @ 0 # z) = c"
    using e(2) by (simp add: takeWhile_tail) (metis takeWhile_eq_all_conv)
  have a: "align4 (length pre + Suc (length c)) = length pre + align4 (Suc (length c))"
    using assms(2) by (rule align4_add)
  have l: "length (wireString p s) = align4 (Suc (length c))"
    using wireString_ok(2) [OF assms(1)] len by (simp add: e_def)
  show ?thesis
    unfolding readString_def ofBytes_simps drop_append Let_def
    using tw a l e(3) by (simp add: w)
qed

lemma getUint32_at2 [simp]:
  "getUint32 (ofBytes (pre @ be32 a @ be32 b @ post)) (length pre + 4) = Inr b"
  using getUint32_at [of "pre @ be32 a" b post] by simp

lemma readInt32_at2 [simp]:
  "readInt32 (ofBytes (pre @ be32 a @ be32 b @ post)) (length pre + 4) = Inr (sint b, length pre + 8)"
  using readInt32_at [of "pre @ be32 a" b post] by simp

lemma bufferSlice_at:
  "n = int (length X) \<Longrightarrow> bufferSlice (ofBytes (pre @ X @ post)) (length pre) n = Inr X"
  by (simp add: bufferSlice_def)

lemma tagOf_not_bracket [simp]: "tagOf s \<noteq> 0x5B" "tagOf s \<noteq> 0x5D"
  by (cases s; simp)+

lemma length_wireScalar_dvd: "okScalar p s \<Longrightarrow> 4 dvd length (wireScalar p s)"
proof (cases s)
  case (Blob bs)
  have "length bs + (align4 (length bs) - length bs) = align4 (length bs)"
    using align4_ge [of "length bs"] by arith
  then show ?thesis
    using Blob by (simp add: add.assoc)
next
  case (Color r g b a)
  have "(4 :: nat) dvd Suc (Suc (Suc (Suc 0)))"
    by presburger
  then show ?thesis using Color by simp
next
  case (Midi a b c d)
  have "(4 :: nat) dvd Suc (Suc (Suc (Suc 0)))"
    by presburger
  then show ?thesis using Midi by simp
qed (simp_all add: wireString_dvd)

lemma readBlob_at:
  assumes "length bs + 3 < 2 ^ 31"
  shows "readBlob (ofBytes (pre @ wireScalar p (Blob bs) @ post)) (length pre) =
           Inr (JUint8Array bs, length pre + length (wireScalar p (Blob bs)))"
proof -
  let ?z = "zeros (align4 (length bs) - length bs)"
  have "bufferSlice (ofBytes ((pre @ be32 (of_nat (length bs))) @ bs @ (?z @ post)))
          (length (pre @ be32 (of_nat (length bs)))) (int (length bs)) = Inr bs"
    by (rule bufferSlice_at) simp
  then have b: "bufferSlice (ofBytes (pre @ be32 (of_nat (length bs)) @ bs @ ?z @ post))
          (length pre + 4) (int (length bs)) = Inr bs"
    by simp
  have l: "length bs + (align4 (length bs) - length bs) = align4 (length bs)"
    using align4_ge [of "length bs"] by arith
  have s: "length bs < 2 ^ 31"
    using assms by simp
  show ?thesis
    using b l by (simp add: readBlob_def bind_def sint_of_nat_small [OF s] add.assoc)
qed

lemma readArgument_scalar:
  assumes "okScalar p s" and "4 dvd length pre" and "metadata opt"
  shows "readArgument p (tagOf s) tts (ofBytes (pre @ wireScalar p s @ post)) (Some opt) (length pre) =
           Inr (jsScalar (dateNow p) s, length pre + length (wireScalar p s))"
proof (cases s)
  case (String x)
  then show ?thesis
    using assms readString_at [of p x pre post]
    by (simp add: readArgument_def argumentReader_def jsScalar_def bind_def)
next
  case (Symbol x)
  then show ?thesis
    using assms readString_at [of p x pre post]
    by (simp add: readArgument_def argumentReader_def jsScalar_def bind_def)
next
  case (Blob bs)
  then show ?thesis
    using assms readBlob_at [of bs pre p post]
    by (simp add: readArgument_def argumentReader_def jsScalar_def bind_def)
next
  case (Color r g b a)
  have "bufferSlice (ofBytes (pre @ [r, g, b, a] @ post)) (length pre) 4 = Inr [r, g, b, a]"
    by (rule bufferSlice_at) simp
  then show ?thesis
    using assms Color
    by (simp add: readArgument_def argumentReader_def jsScalar_def bind_def readColor_def)
next
  case (Midi a b c d)
  have "bufferSlice (ofBytes (pre @ [a, b, c, d] @ post)) (length pre) 4 = Inr [a, b, c, d]"
    by (rule bufferSlice_at) simp
  then show ?thesis
    using assms Midi
    by (simp add: readArgument_def argumentReader_def jsScalar_def bind_def readMIDIBytes_def)
next
  case (Char32 c)
  have "(ucast (ucast c :: 32 word) :: 16 word) = c"
    by (simp add: ucast_up_ucast_id is_up)
  then show ?thesis
    using assms Char32
    by (simp add: readArgument_def argumentReader_def jsScalar_def bind_def readChar32_def)
qed (use assms in \<open>simp_all add: readArgument_def argumentReader_def jsScalar_def bind_def
      readInt64_def readFloat32_def readFloat64_def readTimeTag_def timeTagValue_def Let_def\<close>)

lemma readArgumentsIntoArray_scalars:
  assumes "list_all (okScalar p) ss" and "4 dvd length pre" and "metadata opt"
  shows "readArgumentsIntoArray p (map tagOf ss) tts
           (ofBytes (pre @ concat (map (wireScalar p) ss) @ post)) (Some opt) (length pre) =
         Inr (map (jsScalar (dateNow p)) ss, length pre + length (concat (map (wireScalar p) ss)))"
  using assms(1,2)
proof (induction ss arbitrary: pre)
  case Nil
  show ?case by simp
next
  case (Cons s ss)
  have 1: "readArgument p (tagOf s) tts
             (ofBytes (pre @ wireScalar p s @ (concat (map (wireScalar p) ss) @ post)))
             (Some opt) (length pre) = Inr (jsScalar (dateNow p) s, length pre + length (wireScalar p s))"
    using Cons.prems assms(3) by (intro readArgument_scalar) simp_all
  have "4 dvd length (pre @ wireScalar p s)"
    using Cons.prems length_wireScalar_dvd [of p s] by simp
  then have 2: "readArgumentsIntoArray p (map tagOf ss) tts
           (ofBytes ((pre @ wireScalar p s) @ concat (map (wireScalar p) ss) @ post)) (Some opt)
           (length (pre @ wireScalar p s)) =
         Inr (map (jsScalar (dateNow p)) ss,
              length (pre @ wireScalar p s) + length (concat (map (wireScalar p) ss)))"
    using Cons.prems by (intro Cons.IH) simp_all
  show ?case
    using 1 2 by (simp add: add.assoc)
qed

lemma length_wireArgument_dvd: "okArgument p a \<Longrightarrow> 4 dvd length (wireArgument p a)"
proof (cases a)
  case (Scalar s)
  assume "okArgument p a"
  then show ?thesis using Scalar by (simp add: length_wireScalar_dvd)
next
  case (Array ss)
  assume "okArgument p a"
  then have "list_all (okScalar p) ss" using Array by simp
  then have "4 dvd length (concat (map (wireScalar p) ss))"
    by (induction ss) (simp_all add: length_wireScalar_dvd)
  then show ?thesis using Array by simp
qed

lemma length_wireArguments_dvd:
  "list_all (okArgument p) argv \<Longrightarrow> 4 dvd length (concat (map (wireArgument p) argv))"
  by (induction argv) (simp_all add: length_wireArgument_dvd)

lemma readArgumentsIntoArray_arguments:
  assumes "list_all (okArgument p) argv" and "4 dvd length pre" and "metadata opt"
  shows "readArgumentsIntoArray p (concat (map tagsOf argv)) tts
           (ofBytes (pre @ concat (map (wireArgument p) argv) @ post)) (Some opt) (length pre) =
         Inr (map (jsArgument (dateNow p)) argv, length pre + length (concat (map (wireArgument p) argv)))"
  using assms(1,2)
proof (induction argv arbitrary: pre)
  case Nil
  show ?case by simp
next
  case (Cons a argv)
  let ?rest = "concat (map (wireArgument p) argv)"
  have d: "4 dvd length (pre @ wireArgument p a)"
    using Cons.prems length_wireArgument_dvd [of p a] by simp
  have ih: "readArgumentsIntoArray p (concat (map tagsOf argv)) tts
           (ofBytes ((pre @ wireArgument p a) @ ?rest @ post)) (Some opt)
           (length (pre @ wireArgument p a)) =
         Inr (map (jsArgument (dateNow p)) argv, length (pre @ wireArgument p a) + length ?rest)"
    using Cons.prems d by (intro Cons.IH) simp_all
  show ?case
  proof (cases a)
    case (Scalar s)
    have 1: "readArgument p (tagOf s) tts (ofBytes (pre @ wireScalar p s @ (?rest @ post)))
               (Some opt) (length pre) = Inr (jsScalar (dateNow p) s, length pre + length (wireScalar p s))"
      using Cons.prems assms(3) Scalar by (intro readArgument_scalar) simp_all
    show ?thesis
      using 1 ih Scalar by (simp add: add.assoc)
  next
    case (Array ss)
    have i: "indexOf (map tagOf ss @ 0x5D # concat (map tagsOf argv)) 0x5D = Some (length (map tagOf ss))"
      by (rule indexOf_append) auto
    have 1: "readArgumentsIntoArray p (map tagOf ss) tts
               (ofBytes (pre @ concat (map (wireScalar p) ss) @ (?rest @ post))) (Some opt) (length pre) =
             Inr (map (jsScalar (dateNow p)) ss, length pre + length (concat (map (wireScalar p) ss)))"
      using Cons.prems assms(3) Array by (intro readArgumentsIntoArray_scalars) simp_all
    show ?thesis
      using i 1 ih Array by (simp add: add.assoc)
  qed
qed

lemma readMessageContents_at:
  assumes "okPacket p (OscMessage addr argv)" and "4 dvd length pre" and "metadata opt"
    and "\<not> unpackSingleArgs opt"
  shows "readMessageContents p addr (ofBytes (pre @ wirePacket p (OscMessage addr argv) @ post))
           (Some opt) (length pre + length (wireString p addr)) =
         Inr (jsPacket (dateNow p) (OscMessage addr argv),
              length pre + length (wirePacket p (OscMessage addr argv)))"
proof -
  let ?a = "wireString p addr"
  let ?tags = "[0x2C] @ concat (map tagsOf argv)"
  let ?t = "wireString p ?tags"
  let ?d = "concat (map (wireArgument p) argv)"
  have ok: "take 1 addr = [0x2F]" "stringOk p addr" "stringOk p ?tags" "list_all (okArgument p) argv"
    using assms(1) by simp_all
  have da: "4 dvd length (pre @ ?a)"
    using assms(2) wireString_dvd [OF ok(2)] by simp
  have dt: "4 dvd length ((pre @ ?a) @ ?t)"
    using da wireString_dvd [OF ok(3)] by (metis dvd_add length_append)
  have 1: "readString p (ofBytes ((pre @ ?a) @ ?t @ (?d @ post))) (length (pre @ ?a)) =
             (?tags, length (pre @ ?a) + length ?t)"
    using ok(3) da by (rule readString_at)
  have 2: "readArgumentsIntoArray p (concat (map tagsOf argv)) ?tags
             (ofBytes (((pre @ ?a) @ ?t) @ ?d @ post)) (Some opt) (length ((pre @ ?a) @ ?t)) =
           Inr (map (jsArgument (dateNow p)) argv, length ((pre @ ?a) @ ?t) + length ?d)"
    using ok(4) dt assms(3) by (rule readArgumentsIntoArray_arguments)
  show ?thesis
    using 1 2 ok(1) assms(4)
    by (simp add: readMessageContents_def readArguments_def bind_def add.assoc)
qed

lemma readTimeTag_at:
  "readTimeTag p (ofBytes (pre @ be32 secs @ be32 fr @ post)) (length pre) =
     Inr (timeTagValue (dateNow p) secs fr, length pre + 8)"
  by (simp add: readTimeTag_def timeTagValue_def bind_def Let_def)

lemma length_wirePacket_dvd: "okPacket p x \<Longrightarrow> 4 dvd length (wirePacket p x)"
proof (induction x)
  case (OscMessage addr argv)
  then show ?case
    using wireString_dvd [of p addr]
      wireString_dvd [of p "[0x2C] @ concat (map tagsOf argv)"]
      length_wireArguments_dvd [of p argv]
    by simp
next
  case (OscBundle secs fr ps)
  have "\<And>x. x \<in> set ps \<Longrightarrow> 4 dvd length (wirePacket p x)"
    using OscBundle by (auto simp: list_all_iff)
  then have "4 dvd length (concat (map (\<lambda>x. be32 (of_nat (length (wirePacket p x))) @ wirePacket p x) ps))"
    by (induction ps) simp_all
  then show ?case
    using OscBundle.prems wireString_dvd [of p "str ''#bundle''"] by simp
qed

lemma readBundlePackets_at:
  assumes ih: "\<And>x pre post n. x \<in> set ps \<Longrightarrow> 4 dvd length pre \<Longrightarrow> fuelOf x \<le> n \<Longrightarrow>
      readPacket n p (ofBytes (pre @ wirePacket p x @ post)) (Some opt) (length pre)
        (int (length pre + length (wirePacket p x))) =
      Inr (jsPacket (dateNow p) x, length pre + length (wirePacket p x))"
    and ok: "list_all (\<lambda>x. okPacket p x \<and> length (wirePacket p x) < 2 ^ 31) ps"
    and "4 dvd length pre"
    and "1 + sum_list (map (\<lambda>x. fuelOf x + 1) ps) \<le> n"
  shows "readBundlePackets n p
           (ofBytes (pre @ concat (map (\<lambda>x. be32 (of_nat (length (wirePacket p x))) @ wirePacket p x) ps) @ post))
           (Some opt) (length pre)
           (int (length pre +
                 length (concat (map (\<lambda>x. be32 (of_nat (length (wirePacket p x))) @ wirePacket p x) ps)))) =
         Inr (map (jsPacket (dateNow p)) ps,
              length pre +
              length (concat (map (\<lambda>x. be32 (of_nat (length (wirePacket p x))) @ wirePacket p x) ps)))"
  using assms
proof (induction ps arbitrary: pre n)
  case Nil
  then obtain n1 where "n = Suc n1"
    by (cases n) auto
  then show ?case by simp
next
  case (Cons x ps)
  let ?el = "\<lambda>x. be32 (of_nat (length (wirePacket p x))) @ wirePacket p x"
  let ?rest = "concat (map ?el ps)"
  let ?sz = "be32 (of_nat (length (wirePacket p x)))"
  let ?w = "wirePacket p x"
  obtain n1 where n: "n = Suc n1" and n1: "fuelOf x \<le> n1" "1 + sum_list (map (\<lambda>x. fuelOf x + 1) ps) \<le> n1"
    using Cons.prems(4) by (cases n) auto
  have okx: "okPacket p x" "length ?w < 2 ^ 31" and okps: "list_all (\<lambda>x. okPacket p x \<and> length (wirePacket p x) < 2 ^ 31) ps"
    using Cons.prems(2) by simp_all
  have d1: "4 dvd length (pre @ ?sz)"
    using Cons.prems(3) by simp
  have d2: "4 dvd length ((pre @ ?sz) @ ?w)"
    using d1 length_wirePacket_dvd [OF okx(1)] by (metis dvd_add length_append)
  have 1: "readInt32 (ofBytes (pre @ ?sz @ (?w @ ?rest @ post))) (length pre) =
             Inr (int (length ?w), length pre + 4)"
    using sint_of_nat_small [OF okx(2)] by simp
  have 2: "readPacket n1 p (ofBytes ((pre @ ?sz) @ ?w @ (?rest @ post))) (Some opt) (length (pre @ ?sz))
             (int (length (pre @ ?sz) + length ?w)) =
           Inr (jsPacket (dateNow p) x, length (pre @ ?sz) + length ?w)"
    using d1 n1(1) by (intro Cons.prems(1)) simp_all
  have 3: "readBundlePackets n1 p (ofBytes (((pre @ ?sz) @ ?w) @ ?rest @ post)) (Some opt)
             (length ((pre @ ?sz) @ ?w)) (int (length ((pre @ ?sz) @ ?w) + length ?rest)) =
           Inr (map (jsPacket (dateNow p)) ps, length ((pre @ ?sz) @ ?w) + length ?rest)"
    using okps d2 n1(2) Cons.prems(1) by (intro Cons.IH) simp_all
  show ?case
    unfolding n using 1 2 3 by (simp add: add.assoc)
qed

lemma readPacket_at:
  assumes "metadata opt" and "\<not> unpackSingleArgs opt"
  shows "okPacket p x \<Longrightarrow> 4 dvd length pre \<Longrightarrow> fuelOf x \<le> n \<Longrightarrow>
      readPacket n p (ofBytes (pre @ wirePacket p x @ post)) (Some opt) (length pre)
        (int (length pre + length (wirePacket p x))) =
      Inr (jsPacket (dateNow p) x, length pre + length (wirePacket p x))"
proof (induction x arbitrary: pre post n)
  case (OscMessage addr argv)
  let ?a = "wireString p addr"
  let ?r = "wireString p ([0x2C] @ concat (map tagsOf argv)) @ concat (map (wireArgument p) argv)"
  obtain n1 where n: "n = Suc n1"
    using OscMessage.prems(3) by (cases n) auto
  have ok: "take 1 addr = [0x2F]" "stringOk p addr"
    using OscMessage.prems(1) by simp_all
  have 1: "readString p (ofBytes (pre @ ?a @ (?r @ post))) (length pre) = (addr, length pre + length ?a)"
    using ok(2) OscMessage.prems(2) by (rule readString_at)
  have 2: "readMessageContents p addr (ofBytes (pre @ wirePacket p (OscMessage addr argv) @ post))
           (Some opt) (length pre + length ?a) =
         Inr (jsPacket (dateNow p) (OscMessage addr argv),
              length pre + length (wirePacket p (OscMessage addr argv)))"
    using OscMessage.prems(1,2) assms by (rule readMessageContents_at)
  show ?case
    unfolding n using 1 2 ok(1) by (simp del: jsPacket.simps)
next
  case (OscBundle secs fr ps)
  let ?h = "wireString p (str ''#bundle'')"
  let ?el = "\<lambda>x. be32 (of_nat (length (wirePacket p x))) @ wirePacket p x"
  let ?rest = "concat (map ?el ps)"
  obtain n2 where n: "n = Suc (Suc n2)" and n2: "1 + sum_list (map (\<lambda>x. fuelOf x + 1) ps) \<le> n2"
    using OscBundle.prems(3) by (cases n; cases "n - 1") auto
  have ok: "stringOk p (str ''#bundle'')"
    "list_all (\<lambda>x. okPacket p x \<and> length (wirePacket p x) < 2 ^ 31) ps"
    using OscBundle.prems(1) by simp_all
  have okx: "\<And>x. x \<in> set ps \<Longrightarrow> okPacket p x"
    using ok(2) by (auto simp: list_all_iff)
  have d1: "4 dvd length (pre @ ?h)"
    using OscBundle.prems(2) wireString_dvd [OF ok(1)] by simp
  have "(4 :: nat) dvd length (be32 secs @ be32 fr)"
    by simp
  then have d2: "4 dvd length ((pre @ ?h) @ be32 secs @ be32 fr)"
    using d1 by (metis dvd_add length_append)
  have 1: "readString p (ofBytes (pre @ ?h @ (be32 secs @ be32 fr @ ?rest @ post))) (length pre) =
             (str ''#bundle'', length pre + length ?h)"
    using ok(1) OscBundle.prems(2) by (rule readString_at)
  have 2: "readTimeTag p (ofBytes ((pre @ ?h) @ be32 secs @ be32 fr @ (?rest @ post))) (length (pre @ ?h)) =
             Inr (timeTagValue (dateNow p) secs fr, length (pre @ ?h) + 8)"
    by (rule readTimeTag_at)
  have 3: "readBundlePackets n2 p
             (ofBytes (((pre @ ?h) @ be32 secs @ be32 fr) @ ?rest @ post)) (Some opt)
             (length ((pre @ ?h) @ be32 secs @ be32 fr))
             (int (length ((pre @ ?h) @ be32 secs @ be32 fr) + length ?rest)) =
           Inr (map (jsPacket (dateNow p)) ps, length ((pre @ ?h) @ be32 secs @ be32 fr) + length ?rest)"
    using ok(2) d2 n2 OscBundle.IH okx by (intro readBundlePackets_at) blast+
  have h: "take 1 (str ''#bundle'') = [0x23]"
    by (simp add: str_def)
  show ?case
    unfolding n using 1 2 3 h by (simp add: add.assoc)
qed

lemma fuelOf_le: "okPacket p x \<Longrightarrow> fuelOf x \<le> length (wirePacket p x) + 3"
proof (induction x)
  case (OscMessage addr argv)
  show ?case by simp
next
  case (OscBundle secs fr ps)
  have "\<And>x. x \<in> set ps \<Longrightarrow> fuelOf x \<le> length (wirePacket p x) + 3"
    using OscBundle by (auto simp: list_all_iff)
  then have "sum_list (map (\<lambda>x. fuelOf x + 1) ps) \<le>
             length (concat (map (\<lambda>x. be32 (of_nat (length (wirePacket p x))) @ wirePacket p x) ps))"
  proof (induction ps)
    case Nil
    show ?case by simp
  next
    case (Cons x ps)
    have "fuelOf x \<le> length (wirePacket p x) + 3"
      using Cons.prems by simp
    moreover have "sum_list (map (\<lambda>x. fuelOf x + 1) ps) \<le>
             length (concat (map (\<lambda>x. be32 (of_nat (length (wirePacket p x))) @ wirePacket p x) ps))"
      using Cons by simp
    ultimately show ?case by simp
  qed
  then show ?case by simp
qed

section \<open>Decoding always returns\<close>

text \<open>
  Every reader of the codec either fails with an error of its own or returns an index that
  is not smaller than the one it started from; the readers of fixed-size fields succeed only
  when the field lies inside the view. With that the bound of \<open>decodePacket\<close> is enough for
  every input: \<open>OutOfFuel\<close> is never its result.
\<close>

lemma readString_mono: "readString p dv idx = (s, i) \<Longrightarrow> idx \<le> i"
proof -
  assume a: "readString p dv idx = (s, i)"
  have "idx \<le> align4 (idx + k)" for k
    using align4_ge [of "idx + k"] by arith
  from this [of "length (takeWhile (\<lambda>b. b \<noteq> 0) (drop idx (window dv))) +
      (if length (takeWhile (\<lambda>b. b \<noteq> 0) (drop idx (window dv))) < length (drop idx (window dv))
       then 1 else 0)"]
  show ?thesis
    using a unfolding readString_def Let_def by (simp add: add.assoc)
qed

lemma getUint32_cases: "getUint32 dv idx = Inl RangeError \<or> (\<exists>w. getUint32 dv idx = Inr w)"
  by (simp add: getUint32_def getBytes_def bind_def)

lemma getUint64_cases: "getUint64 dv idx = Inl RangeError \<or> (\<exists>w. getUint64 dv idx = Inr w)"
  by (simp add: getUint64_def getBytes_def bind_def)

lemma bufferSlice_cases: "bufferSlice dv idx n = Inl RangeError \<or> (\<exists>bs. bufferSlice dv idx n = Inr bs)"
  by (simp add: bufferSlice_def)

lemma readInt32_result:
  "readInt32 dv idx = Inl RangeError \<or> (\<exists>n. readInt32 dv idx = Inr (n, idx + 4))"
  using getUint32_cases [of dv idx] by (auto simp: readInt32_def bind_def)

lemma readInt32_inside:
  "readInt32 dv idx = Inr (n, i) \<Longrightarrow> idx + 4 \<le> length (window dv) \<and> i = idx + 4"
  by (auto simp: readInt32_def getUint32_def getBytes_def bind_def split: if_splits)

lemma readTimeTag_inside:
  "readTimeTag p dv idx = Inr (tt, i) \<Longrightarrow> idx + 8 \<le> length (window dv) \<and> i = idx + 8"
  by (auto simp: readTimeTag_def getUint32_def getBytes_def bind_def Let_def split: if_splits)

lemma readTimeTag_result:
  "readTimeTag p dv idx = Inl RangeError \<or> (\<exists>tt. readTimeTag p dv idx = Inr (tt, idx + 8))"
  using getUint32_cases [of dv idx] getUint32_cases [of dv "idx + 4"]
  by (auto simp: readTimeTag_def bind_def Let_def)

lemma argumentReader_result:
  assumes "argumentReader p t = Some rd"
  shows "rd dv idx = Inl RangeError \<or> (\<exists>v i. rd dv idx = Inr (v, i) \<and> idx \<le> i)"
proof -
  define good :: "(dataview \<Rightarrow> nat \<Rightarrow> error + jsval \<times> nat) \<Rightarrow> bool" where
    "good r \<longleftrightarrow> (\<forall>dv idx. r dv idx = Inl RangeError \<or> (\<exists>v i. r dv idx = Inr (v, i) \<and> idx \<le> i))" for r
  have s: "good (\<lambda>dv idx. case readString p dv idx of (s, i) \<Rightarrow> Inr (JStr s, i))"
    unfolding good_def
  proof (intro allI)
    fix dv idx
    show "(case readString p dv idx of (s, i) \<Rightarrow> Inr (JStr s, i)) = Inl RangeError \<or>
       (\<exists>v i. (case readString p dv idx of (s, i) \<Rightarrow> Inr (JStr s, i)) = Inr (v, i) \<and> idx \<le> i)"
      using readString_mono [of p dv idx] by (cases "readString p dv idx") auto
  qed
  have i32: "good (\<lambda>dv idx. bind (readInt32 dv idx) (\<lambda>(n, i). Inr (JNum (of_int n), i)))"
    unfolding good_def
  proof (intro allI)
    fix dv idx
    show "bind (readInt32 dv idx) (\<lambda>(n, i). Inr (JNum (of_int n), i)) = Inl RangeError \<or>
     (\<exists>v i. bind (readInt32 dv idx) (\<lambda>(n, i). Inr (JNum (of_int n), i)) = Inr (v, i) \<and> idx \<le> i)"
      using readInt32_result [of dv idx] by (auto simp: bind_def)
  qed
  have i64: "good readInt64"
    unfolding good_def
  proof (intro allI)
    fix dv idx
    show "readInt64 dv idx = Inl RangeError \<or> (\<exists>v i. readInt64 dv idx = Inr (v, i) \<and> idx \<le> i)"
      using readInt32_result [of dv idx] readInt32_result [of dv "idx + 4"]
      by (auto simp: readInt64_def bind_def)
  qed
  have f32: "good (readFloat32 p)"
    unfolding good_def
  proof (intro allI)
    fix dv idx
    show "readFloat32 p dv idx = Inl RangeError \<or> (\<exists>v i. readFloat32 p dv idx = Inr (v, i) \<and> idx \<le> i)"
      using getUint32_cases [of dv idx] by (auto simp: readFloat32_def bind_def)
  qed
  have f64: "good (readFloat64 p)"
    unfolding good_def
  proof (intro allI)
    fix dv idx
    show "readFloat64 p dv idx = Inl RangeError \<or> (\<exists>v i. readFloat64 p dv idx = Inr (v, i) \<and> idx \<le> i)"
      using getUint64_cases [of dv idx] by (auto simp: readFloat64_def bind_def)
  qed
  have c32: "good readChar32"
    unfolding good_def
  proof (intro allI)
    fix dv idx
    show "readChar32 dv idx = Inl RangeError \<or> (\<exists>v i. readChar32 dv idx = Inr (v, i) \<and> idx \<le> i)"
      using getUint32_cases [of dv idx] by (auto simp: readChar32_def bind_def)
  qed
  have tt: "good (readTimeTag p)"
    unfolding good_def
  proof (intro allI)
    fix dv idx
    show "readTimeTag p dv idx = Inl RangeError \<or> (\<exists>v i. readTimeTag p dv idx = Inr (v, i) \<and> idx \<le> i)"
      using readTimeTag_result [of p dv idx] by auto
  qed
  have col: "good readColor"
    unfolding good_def
  proof (intro allI)
    fix dv idx
    show "readColor dv idx = Inl RangeError \<or> (\<exists>v i. readColor dv idx = Inr (v, i) \<and> idx \<le> i)"
      using bufferSlice_cases [of dv idx 4] by (auto simp: readColor_def bind_def)
  qed
  have midi: "good readMIDIBytes"
    unfolding good_def
  proof (intro allI)
    fix dv idx
    show "readMIDIBytes dv idx = Inl RangeError \<or> (\<exists>v i. readMIDIBytes dv idx = Inr (v, i) \<and> idx \<le> i)"
      using bufferSlice_cases [of dv idx 4] by (auto simp: readMIDIBytes_def bind_def)
  qed
  have blob: "good readBlob"
    unfolding good_def
  proof (intro allI)
    fix dv idx
    from readInt32_result [of dv idx]
    show "readBlob dv idx = Inl RangeError \<or> (\<exists>v i. readBlob dv idx = Inr (v, i) \<and> idx \<le> i)"
    proof
      assume "readInt32 dv idx = Inl RangeError"
      then show ?thesis by (simp add: readBlob_def bind_def)
    next
      assume "\<exists>n. readInt32 dv idx = Inr (n, idx + 4)"
      then obtain n where "readInt32 dv idx = Inr (n, idx + 4)" by blast
      then show ?thesis
        using bufferSlice_cases [of dv "idx + 4" n] by (auto simp: readBlob_def bind_def)
    qed
  qed
  have const: "good (\<lambda>dv idx. Inr (v, idx))" for v
    by (simp add: good_def)
  have "good rd"
    using assms unfolding argumentReader_def
    by (auto simp: s i32 i64 f32 f64 c32 tt col midi blob const split: if_splits)
  then show ?thesis
    unfolding good_def by blast
qed

lemma readArgument_result:
  "readArgument p t tts dv opts idx \<noteq> Inl OutOfFuel \<and>
   (\<forall>v i. readArgument p t tts dv opts idx = Inr (v, i) \<longrightarrow> idx \<le> i)"
proof (cases "argumentReader p t")
  case None
  then show ?thesis by (simp add: readArgument_def)
next
  case (Some rd)
  from argumentReader_result [OF Some, of dv idx] show ?thesis
    using Some by (auto simp: readArgument_def bind_def split: option.splits if_splits)
qed

lemma readArgumentsIntoArray_result:
  "readArgumentsIntoArray p ts tts dv opts idx \<noteq> Inl OutOfFuel \<and>
   (\<forall>v i. readArgumentsIntoArray p ts tts dv opts idx = Inr (v, i) \<longrightarrow> idx \<le> i)"
proof (induction p ts tts dv opts idx rule: readArgumentsIntoArray.induct)
  case (1 p tts dv opts idx)
  show ?case by simp
next
  case (2 p argType argTypes tts dv opts idx)
  show ?case
  proof (cases "argType = 0x5B")
    case True
    show ?thesis
    proof (cases "indexOf argTypes 0x5D")
      case None
      then show ?thesis using True by simp
    next
      case (Some e)
      note ih1 = "2.IH"(1) [OF True Some]
      show ?thesis
      proof (cases "readArgumentsIntoArray p (take e argTypes) tts dv opts idx")
        case (Inl err)
        then show ?thesis using True Some ih1 by simp
      next
        case (Inr r)
        obtain arg idx1 where r: "r = (arg, idx1)" by (cases r)
        note ih2 = "2.IH"(2) [OF True Some Inr r [symmetric]]
        have le: "idx \<le> idx1" using ih1 Inr r by simp
        show ?thesis
          using True Some Inr r ih2 le
          by (auto split: sum.splits)
      qed
    qed
  next
    case False
    show ?thesis
    proof (cases "readArgument p argType tts dv opts idx")
      case (Inl err)
      then show ?thesis
        using False readArgument_result [of p argType tts dv opts idx] by simp
    next
      case (Inr r)
      obtain arg idx1 where r: "r = (arg, idx1)" by (cases r)
      note ih = "2.IH"(3) [OF False Inr r [symmetric]]
      have le: "idx \<le> idx1"
        using readArgument_result [of p argType tts dv opts idx] Inr r by simp
      show ?thesis
        using False Inr r ih le by (auto split: sum.splits)
    qed
  qed
qed

lemma readMessageContents_result:
  "readMessageContents p addr dv opts idx \<noteq> Inl OutOfFuel \<and>
   (\<forall>v i. readMessageContents p addr dv opts idx = Inr (v, i) \<longrightarrow> idx \<le> i)"
proof -
  obtain tts idx1 where rs: "readString p dv idx = (tts, idx1)"
    by (cases "readString p dv idx")
  have le: "idx \<le> idx1" using readString_mono [OF rs] .
  have ra: "readArguments p dv opts idx \<noteq> Inl OutOfFuel \<and>
    (\<forall>v i. readArguments p dv opts idx = Inr (v, i) \<longrightarrow> idx \<le> i)"
  proof (cases tts)
    case Nil
    then show ?thesis using rs by (simp add: readArguments_def)
  next
    case (Cons c ts)
    show ?thesis
      using rs Cons le readArgumentsIntoArray_result [of p ts tts dv opts idx1]
      by (auto simp: readArguments_def)
  qed
  show ?thesis
  proof (cases "readArguments p dv opts idx")
    case (Inl e)
    then show ?thesis using ra by (simp add: readMessageContents_def bind_def)
  next
    case (Inr r)
    obtain a i1 where r: "r = (a, i1)" by (cases r)
    have "idx \<le> i1" using ra Inr r by simp
    then show ?thesis
      using Inr r by (auto simp: readMessageContents_def bind_def split: option.splits)
  qed
qed

lemma readPacket_mono_all:
  "(\<forall>idx len v i. readPacket n p dv opts idx len = Inr (v, i) \<longrightarrow> idx \<le> i) \<and>
   (\<forall>idx len v i. readBundleContents n p dv opts idx len = Inr (v, i) \<longrightarrow> idx \<le> i) \<and>
   (\<forall>idx len v i. readBundlePackets n p dv opts idx len = Inr (v, i) \<longrightarrow> idx \<le> i)"
proof (induction n)
  case 0
  show ?case by simp
next
  case (Suc n)
  have P: "idx \<le> i" if "readPacket n p dv opts idx len = Inr (v, i)" for idx len v i
    using Suc that by blast
  have B: "idx \<le> i" if "readBundleContents n p dv opts idx len = Inr (v, i)" for idx len v i
    using Suc that by blast
  have C: "idx \<le> i" if "readBundlePackets n p dv opts idx len = Inr (v, i)" for idx len v i
    using Suc that by blast
  have 1: "idx \<le> i" if a: "readPacket (Suc n) p dv opts idx len = Inr (v, i)" for idx len v i
  proof -
    obtain h idx1 where rs: "readString p dv idx = (h, idx1)"
      by (cases "readString p dv idx")
    have le: "idx \<le> idx1" using readString_mono [OF rs] .
    show ?thesis
    proof (cases "take 1 h = [0x23]")
      case True
      then have "readBundleContents n p dv opts idx1 len = Inr (v, i)"
        using a rs by simp
      from B [OF this] le show ?thesis by simp
    next
      case False
      then have "readMessageContents p h dv opts idx1 = Inr (v, i)"
        using a rs by (simp split: if_splits)
      then have "idx1 \<le> i"
        using readMessageContents_result [of p h dv opts idx1] by simp
      then show ?thesis using le by simp
    qed
  qed
  have 2: "idx \<le> i" if a: "readBundleContents (Suc n) p dv opts idx len = Inr (v, i)" for idx len v i
  proof -
    from a obtain tt idx1 where rt: "readTimeTag p dv idx = Inr (tt, idx1)"
      by (auto split: sum.splits)
    from a rt obtain pk where "readBundlePackets n p dv opts idx1 len = Inr (pk, i)"
      by (auto split: sum.splits)
    from C [OF this] readTimeTag_inside [OF rt] show ?thesis by simp
  qed
  have 3: "idx \<le> i" if a: "readBundlePackets (Suc n) p dv opts idx len = Inr (v, i)" for idx len v i
  proof (cases "int idx < len")
    case False
    then show ?thesis using a by simp
  next
    case True
    from a True obtain sz idx1 where ri: "readInt32 dv idx = Inr (sz, idx1)"
      by (auto split: sum.splits)
    from a True ri obtain pk idx2 where rp: "readPacket n p dv opts idx1 (int idx1 + sz) = Inr (pk, idx2)"
      by (auto split: sum.splits)
    from a True ri rp obtain pks where rb: "readBundlePackets n p dv opts idx2 len = Inr (pks, i)"
      by (auto split: sum.splits)
    from readInt32_inside [OF ri] P [OF rp] C [OF rb] show ?thesis by simp
  qed
  show ?case using 1 2 3 by blast
qed

lemma readPacket_fuel_all:
  "(\<forall>idx len. idx \<le> length (window dv) \<and> length (window dv) + 3 \<le> n + idx
       \<longrightarrow> readPacket n p dv opts idx len \<noteq> Inl OutOfFuel) \<and>
   (\<forall>idx len. 1 \<le> n \<and> length (window dv) + 2 \<le> n + idx
       \<longrightarrow> readBundleContents n p dv opts idx len \<noteq> Inl OutOfFuel) \<and>
   (\<forall>idx len. 1 \<le> n \<and> length (window dv) + 1 \<le> n + idx
       \<longrightarrow> readBundlePackets n p dv opts idx len \<noteq> Inl OutOfFuel)"
proof (induction n)
  case 0
  show ?case by simp
next
  case (Suc n)
  let ?L = "length (window dv)"
  have P: "readPacket n p dv opts idx len \<noteq> Inl OutOfFuel"
    if "idx \<le> ?L" "?L + 3 \<le> n + idx" for idx len
    using Suc that by blast
  have B: "readBundleContents n p dv opts idx len \<noteq> Inl OutOfFuel"
    if "1 \<le> n" "?L + 2 \<le> n + idx" for idx len
    using Suc that by blast
  have C: "readBundlePackets n p dv opts idx len \<noteq> Inl OutOfFuel"
    if "1 \<le> n" "?L + 1 \<le> n + idx" for idx len
    using Suc that by blast
  have 1: "readPacket (Suc n) p dv opts idx len \<noteq> Inl OutOfFuel"
    if a: "idx \<le> ?L" "?L + 3 \<le> Suc n + idx" for idx len
  proof -
    obtain h idx1 where rs: "readString p dv idx = (h, idx1)"
      by (cases "readString p dv idx")
    have le: "idx \<le> idx1" using readString_mono [OF rs] .
    have "readBundleContents n p dv opts idx1 len \<noteq> Inl OutOfFuel"
      using a le by (intro B) arith+
    then show ?thesis
      using rs readMessageContents_result [of p h dv opts idx1] by simp
  qed
  have 2: "readBundleContents (Suc n) p dv opts idx len \<noteq> Inl OutOfFuel"
    if a: "?L + 2 \<le> Suc n + idx" for idx len
  proof (cases "readTimeTag p dv idx")
    case (Inl e)
    then show ?thesis using readTimeTag_result [of p dv idx] by auto
  next
    case (Inr r)
    obtain tt idx1 where r: "r = (tt, idx1)" by (cases r)
    from readTimeTag_inside [of p dv idx tt idx1] Inr r
    have i: "idx + 8 \<le> ?L" "idx1 = idx + 8" by simp_all
    have "readBundlePackets n p dv opts idx1 len \<noteq> Inl OutOfFuel"
      using a i by (intro C) arith+
    then show ?thesis using Inr r by (auto split: sum.splits)
  qed
  have 3: "readBundlePackets (Suc n) p dv opts idx len \<noteq> Inl OutOfFuel"
    if a: "?L + 1 \<le> Suc n + idx" for idx len
  proof (cases "int idx < len")
    case False
    then show ?thesis by simp
  next
    case True
    show ?thesis
    proof (cases "readInt32 dv idx")
      case (Inl e)
      then show ?thesis using True readInt32_result [of dv idx] by auto
    next
      case (Inr r)
      obtain sz idx1 where r: "r = (sz, idx1)" by (cases r)
      from readInt32_inside [of dv idx sz idx1] Inr r
      have i: "idx + 4 \<le> ?L" "idx1 = idx + 4" by simp_all
      have rp: "readPacket n p dv opts idx1 (int idx1 + sz) \<noteq> Inl OutOfFuel"
        using a i by (intro P) arith+
      show ?thesis
      proof (cases "readPacket n p dv opts idx1 (int idx1 + sz)")
        case (Inl e)
        then show ?thesis using True \<open>readInt32 dv idx = Inr r\<close> r rp by simp
      next
        case (Inr q)
        obtain pk idx2 where q: "q = (pk, idx2)" by (cases q)
        have "idx1 \<le> idx2"
          using readPacket_mono_all [of n p dv opts] Inr q by blast
        then have "readBundlePackets n p dv opts idx2 len \<noteq> Inl OutOfFuel"
          using a i by (intro C) arith+
        then show ?thesis
          using True \<open>readInt32 dv idx = Inr r\<close> r Inr q by (auto split: sum.splits)
      qed
    qed
  qed
  show ?case using 1 2 3 by blast
qed

lemma length_window_le: "length (window dv) \<le> byteLength dv"
  by (simp add: window_def)

text \<open>
  \<^verbatim>\<open>osc.readPacket(data, options)\<close> returns or throws on every view, with any options
  and any platform: the model never gives up at its bound.
\<close>

theorem decodePacket_terminates: "decodePacket p data opts \<noteq> Inl OutOfFuel"
proof -
  have "readPacket (byteLength data + 3) p data opts 0 (int (byteLength data)) \<noteq> Inl OutOfFuel"
    using readPacket_fuel_all [of data "byteLength data + 3" p opts] length_window_le [of data]
    by simp
  then show ?thesis
    by (auto simp: decodePacket_def bind_def split: sum.splits)
qed

section \<open>Round trip\<close>

lemma decodePacket_wire:
  assumes "okPacket p x" and "metadata ropt" and "\<not> unpackSingleArgs ropt"
  shows "decodePacket p (ofBytes (wirePacket p x)) (Some ropt) = Inr (jsPacket (dateNow p) x)"
proof -
  have "readPacket (length (wirePacket p x) + 3) p (ofBytes ([] @ wirePacket p x @ [])) (Some ropt)
          (length ([] :: byte list)) (int (length ([] :: byte list) + length (wirePacket p x))) =
        Inr (jsPacket (dateNow p) x, length ([] :: byte list) + length (wirePacket p x))"
    using assms fuelOf_le [OF assms(1)] by (intro readPacket_at) simp_all
  then show ?thesis
    by (simp add: decodePacket_def bind_def)
qed

text \<open>The wire format and the conditions on a packet do not depend on the clock.\<close>

lemma wireString_clock [simp]: "wireString (p\<lparr>dateNow := t\<rparr>) s = wireString p s"
  by (simp add: wireString_def encodeString_def)

lemma stringOk_clock [simp]: "stringOk (p\<lparr>dateNow := t\<rparr>) s = stringOk p s"
  by (simp add: stringOk_def encodeString_def decodeString_def)

lemma wireScalar_clock [simp]: "wireScalar (p\<lparr>dateNow := t\<rparr>) s = wireScalar p s"
  by (cases s) simp_all

lemma okScalar_clock [simp]: "okScalar (p\<lparr>dateNow := t\<rparr>) s = okScalar p s"
  by (cases s) simp_all

lemma scalar_clock [simp]:
  "wireScalar (p\<lparr>dateNow := t\<rparr>) = wireScalar p" "okScalar (p\<lparr>dateNow := t\<rparr>) = okScalar p"
  by (rule ext, simp)+

lemma wireArgument_clock [simp]: "wireArgument (p\<lparr>dateNow := t\<rparr>) a = wireArgument p a"
  by (cases a) simp_all

lemma okArgument_clock [simp]: "okArgument (p\<lparr>dateNow := t\<rparr>) a = okArgument p a"
  by (cases a) simp_all

lemma argument_clock [simp]:
  "wireArgument (p\<lparr>dateNow := t\<rparr>) = wireArgument p"
  "okArgument (p\<lparr>dateNow := t\<rparr>) = okArgument p"
  by (rule ext, simp)+

lemma wirePacket_clock [simp]: "wirePacket (p\<lparr>dateNow := t\<rparr>) x = wirePacket p x"
proof (induction x)
  case (OscMessage addr argv)
  show ?case by simp
next
  case (OscBundle secs fr ps)
  then have m: "map (\<lambda>x. be32 (of_nat (length (wirePacket (p\<lparr>dateNow := t\<rparr>) x))) @
                          wirePacket (p\<lparr>dateNow := t\<rparr>) x) ps =
                map (\<lambda>x. be32 (of_nat (length (wirePacket p x))) @ wirePacket p x) ps"
    by (intro map_cong) simp_all
  show ?case
    unfolding wirePacket.simps wireString_clock m by (rule refl)
qed

lemma okPacket_clock [simp]: "okPacket (p\<lparr>dateNow := t\<rparr>) x = okPacket p x"
proof (induction x)
  case (OscMessage addr argv)
  show ?case by simp
next
  case (OscBundle secs fr ps)
  then show ?case by (simp add: list_all_iff)
qed

text \<open>
  C1, as the code has it. Take any typed packet (messages with a \<^verbatim>\<open>/\<close> address and the
  fifteen kinds of scalar arguments, alone or in arrays of scalars; bundles with any time
  tag, the immediate \<open>(0, 1)\<close> included, nested to any depth) whose strings and floats are
  within the limits of \<open>okPacket\<close> and whose encoding is shorter than \<open>2^31 - 3\<close> bytes, so
  that no padded length and no index of the codec leaves the 32-bit range. Written with
  type metadata on its arguments, under any options and whatever the clock shows,
  \<^verbatim>\<open>osc.writePacket\<close> produces the wire format. \<^verbatim>\<open>osc.readPacket\<close> on these bytes with the
  options \<^verbatim>\<open>{metadata: true}\<close> (so without unpacking of a single argument) gives the packet
  back: every argument with its type and value, every time tag with its raw pair, the
  pair \<open>(0, 1)\<close> included, and with the \<^verbatim>\<open>native\<close> time the reader derives from it. For the
  immediate tag that is the time \<open>later\<close> at which the bytes are decoded, not the time
  \<open>now\<close> that the packet carried when it was written. Arrays inside arrays are left out.
\<close>

theorem typed_packet_roundtrip:
  assumes "okPacket p x" and "length (wirePacket p x) + 3 < 2 ^ 31"
    and "metadata ropt" and "\<not> unpackSingleArgs ropt"
  shows "writePacket (p\<lparr>dateNow := now\<rparr>) (jsPacket now x) wopts = Inr (wirePacket p x) \<and>
         decodePacket (p\<lparr>dateNow := later\<rparr>) (ofBytes (wirePacket p x)) (Some ropt) =
           Inr (jsPacket later x)"
proof -
  have "okPacket (p\<lparr>dateNow := now\<rparr>) x"
    using assms(1) by simp
  then have w: "writePacket (p\<lparr>dateNow := now\<rparr>) (jsPacket now x) wopts =
                  Inr (wirePacket (p\<lparr>dateNow := now\<rparr>) x)"
    by (rule writePacket_wire)
  have "okPacket (p\<lparr>dateNow := later\<rparr>) x"
    using assms(1) by simp
  then have r: "decodePacket (p\<lparr>dateNow := later\<rparr>)
                  (ofBytes (wirePacket (p\<lparr>dateNow := later\<rparr>) x)) (Some ropt) =
                Inr (jsPacket (dateNow (p\<lparr>dateNow := later\<rparr>)) x)"
    using assms(3,4) by (rule decodePacket_wire)
  show ?thesis
    using w r by simp
qed

lemma stringOk_raw:
  assumes "textEncoder p = None" and "textDecoder p = None"
    and "list_all (\<lambda>c. c \<noteq> 0 \<and> c < 256) s" and "length s + 4 < 2 ^ 31"
  shows "stringOk p s"
proof -
  have 1: "(ucast (ucast c :: byte) :: 16 word) = c" if "c < 256" for c :: "16 word"
  proof -
    have "c < 2 ^ 8"
      using that by simp
    then have "c AND mask 8 = c"
      by (rule less_mask_eq)
    then have "take_bit 8 c = c"
      by (simp add: take_bit_eq_mask)
    then show ?thesis
      by (simp add: unsigned_ucast_eq)
  qed
  have 2: "(ucast c :: byte) \<noteq> 0" if "c < 256" "c \<noteq> 0" for c :: "16 word"
    using 1 [OF that(1)] that(2) by (metis ucast_0)
  have "map ucast (map ucast s :: byte list) = s" "0 \<notin> set (map ucast s :: byte list)"
    using assms(3) by (induction s) (auto simp: 1 2)
  then show ?thesis
    using assms(1,2,4) by (simp add: stringOk_def encodeString_def decodeString_def Let_def)
qed

lemma ex_strings:
  "stringOk examplePlatform (str ''#bundle'')" "stringOk examplePlatform (str ''/a'')"
  "stringOk examplePlatform (str ''hi'')" "stringOk examplePlatform (str '',i[sT]'')"
  "stringOk examplePlatform (str '',i'')"
  by (rule stringOk_raw; simp add: examplePlatform_def str_def)+

lemma ex_message_wire:
  "wirePacket examplePlatform exampleMessage =
     [47, 97, 0, 0, 44, 105, 91, 115, 84, 93, 0, 0, 0, 0, 0, 5, 104, 105, 0, 0]"
  by code_simp

lemma ex_inner_wire:
  "wirePacket examplePlatform (OscBundle 3900000000 2147483648 []) =
     [35, 98, 117, 110, 100, 108, 101, 0, 232, 117, 71, 0, 128, 0, 0, 0]"
  by code_simp

lemma ex_message_ok: "okPacket examplePlatform exampleMessage"
  using ex_strings by (simp add: exampleMessage_def str_def)

lemma ex_bundle_ok: "okPacket examplePlatform exampleBundle"
proof -
  have "length (wirePacket examplePlatform exampleMessage) < 2 ^ 31"
    "length (wirePacket examplePlatform (OscBundle 3900000000 2147483648 [])) < 2 ^ 31"
    unfolding ex_message_wire ex_inner_wire by simp_all
  then show ?thesis
    using ex_strings(1) ex_message_ok
    by (simp add: exampleBundle_def del: wirePacket.simps)
qed

lemma ex_js: "jsPacket t exampleBundle =
  Bundle (JObject [(''raw'', JArray [JNum 0, JNum 1]), (''native'', JNum t)])
    [Message (str ''/a'')
       (JArray [JObject [(''type'', JStr (str ''i'')), (''value'', JNum 5)],
                JArray [JObject [(''type'', JStr (str ''s'')), (''value'', JStr (str ''hi''))],
                        JObject [(''type'', JStr (str ''T'')), (''value'', JBool True)]]]),
     Bundle (JObject [(''raw'', JArray [JNum 3900000000, JNum 2147483648]),
                      (''native'', JNum 1691011200500)]) []]"
  by (simp add: exampleBundle_def exampleMessage_def jsScalar_def timeTagValue_def str_def ex_time_half)

lemma ex_bundle_wire:
  "wirePacket examplePlatform exampleBundle =
     [35, 98, 117, 110, 100, 108, 101, 0, 0, 0, 0, 0, 0, 0, 0, 1, 0, 0, 0, 20,
      47, 97, 0, 0, 44, 105, 91, 115, 84, 93, 0, 0, 0, 0, 0, 5, 104, 105, 0, 0,
      0, 0, 0, 16, 35, 98, 117, 110, 100, 108, 101, 0, 232, 117, 71, 0, 128, 0, 0, 0]"
  by code_simp

text \<open>
  The example bundle, built when the clock shows 5 and decoded when it shows 1000: the
  immediate time tag comes back with its raw pair \<open>(0, 1)\<close> and the native time 1000.
\<close>

theorem typed_packet_roundtrip_witness:
  "okPacket examplePlatform exampleBundle \<and>
   length (wirePacket examplePlatform exampleBundle) + 3 < 2 ^ 31 \<and>
   metadata \<lparr>metadata = True, unpackSingleArgs = False\<rparr> \<and>
   \<not> unpackSingleArgs \<lparr>metadata = True, unpackSingleArgs = False\<rparr> \<and>
   writePacket (examplePlatform\<lparr>dateNow := 5\<rparr>)
     (Bundle (JObject [(''raw'', JArray [JNum 0, JNum 1]), (''native'', JNum 5)])
        [Message (str ''/a'')
           (JArray [JObject [(''type'', JStr (str ''i'')), (''value'', JNum 5)],
                    JArray [JObject [(''type'', JStr (str ''s'')), (''value'', JStr (str ''hi''))],
                            JObject [(''type'', JStr (str ''T'')), (''value'', JBool True)]]]),
         Bundle (JObject [(''raw'', JArray [JNum 3900000000, JNum 2147483648]),
                          (''native'', JNum 1691011200500)]) []]) None =
     Inr [35, 98, 117, 110, 100, 108, 101, 0, 0, 0, 0, 0, 0, 0, 0, 1, 0, 0, 0, 20,
          47, 97, 0, 0, 44, 105, 91, 115, 84, 93, 0, 0, 0, 0, 0, 5, 104, 105, 0, 0,
          0, 0, 0, 16, 35, 98, 117, 110, 100, 108, 101, 0, 232, 117, 71, 0, 128, 0, 0, 0] \<and>
   decodePacket (examplePlatform\<lparr>dateNow := 1000\<rparr>)
     (ofBytes [35, 98, 117, 110, 100, 108, 101, 0, 0, 0, 0, 0, 0, 0, 0, 1, 0, 0, 0, 20,
               47, 97, 0, 0, 44, 105, 91, 115, 84, 93, 0, 0, 0, 0, 0, 5, 104, 105, 0, 0,
               0, 0, 0, 16, 35, 98, 117, 110, 100, 108, 101, 0, 232, 117, 71, 0, 128, 0, 0, 0])
     (Some \<lparr>metadata = True, unpackSingleArgs = False\<rparr>) =
     Inr (Bundle (JObject [(''raw'', JArray [JNum 0, JNum 1]), (''native'', JNum 1000)])
            [Message (str ''/a'')
               (JArray [JObject [(''type'', JStr (str ''i'')), (''value'', JNum 5)],
                        JArray [JObject [(''type'', JStr (str ''s'')), (''value'', JStr (str ''hi''))],
                                JObject [(''type'', JStr (str ''T'')), (''value'', JBool True)]]]),
             Bundle (JObject [(''raw'', JArray [JNum 3900000000, JNum 2147483648]),
                              (''native'', JNum 1691011200500)]) []])"
proof -
  have m: "metadata \<lparr>metadata = True, unpackSingleArgs = False\<rparr>"
    "\<not> unpackSingleArgs \<lparr>metadata = True, unpackSingleArgs = False\<rparr>"
    by simp_all
  have l: "length (wirePacket examplePlatform exampleBundle) + 3 < 2 ^ 31"
    unfolding ex_bundle_wire by simp
  show ?thesis
    using typed_packet_roundtrip [OF ex_bundle_ok l m, of 5 None 1000] ex_bundle_ok l
    unfolding ex_bundle_wire ex_js by simp
qed

lemma ex_int_message_ok: "okPacket examplePlatform (OscMessage (str ''/a'') [Scalar (Int32 5)])"
  using ex_strings by (simp add: str_def)

lemma ex_int_message_wire:
  "wirePacket examplePlatform (OscMessage (str ''/a'') [Scalar (Int32 5)]) =
     [0x2F, 0x61, 0, 0, 0x2C, 0x69, 0, 0, 0, 0, 0, 5]"
  by code_simp

lemma ex_int_message_written:
  "writePacket examplePlatform
     (Message (str ''/a'') (JArray [JObject [(''type'', JStr (str ''i'')), (''value'', JNum 5)]]))
     None = Inr [0x2F, 0x61, 0, 0, 0x2C, 0x69, 0, 0, 0, 0, 0, 5]"
  using writePacket_wire [OF ex_int_message_ok, of 0 None]
  unfolding ex_int_message_wire by (simp add: jsScalar_def str_def)

lemma ex_int_message_no_options:
  "decodePacket examplePlatform (ofBytes [0x2F, 0x61, 0, 0, 0x2C, 0x69, 0, 0, 0, 0, 0, 5]) None =
   Inl TypeError"
  using decodePacket_message [OF ex_msg_header, where opts = None]
  by (simp add: reader_defs)

lemma ex_int_message_defaults:
  "decodePacket examplePlatform (ofBytes [0x2F, 0x61, 0, 0, 0x2C, 0x69, 0, 0, 0, 0, 0, 5])
     (Some defaults) = Inr (Message (str ''/a'') (JNum 5))"
  using decodePacket_message [OF ex_msg_header, where opts = "Some defaults"]
  by (simp add: readMessageContents_def ex_msg_arguments bind_def str_def)

lemma ex_immediate_ok: "okPacket examplePlatform (OscBundle 0 1 [])"
  using ex_strings(1) by simp

lemma ex_immediate_wire:
  "wirePacket examplePlatform (OscBundle 0 1 []) =
     [35, 98, 117, 110, 100, 108, 101, 0, 0, 0, 0, 0, 0, 0, 0, 1]"
  by code_simp

lemma ex_immediate_written:
  "writePacket examplePlatform
     (Bundle (JObject [(''raw'', JArray [JNum 0, JNum 1]), (''native'', JNum 0)]) []) None =
   Inr [35, 98, 117, 110, 100, 108, 101, 0, 0, 0, 0, 0, 0, 0, 0, 1]"
  using writePacket_wire [OF ex_immediate_ok, of 0 None]
  unfolding ex_immediate_wire by (simp add: timeTagValue_def)

lemma ex_immediate_read_later:
  "decodePacket (examplePlatform\<lparr>dateNow := 1000\<rparr>)
     (ofBytes [35, 98, 117, 110, 100, 108, 101, 0, 0, 0, 0, 0, 0, 0, 0, 1])
     (Some \<lparr>metadata = True, unpackSingleArgs = False\<rparr>) =
   Inr (Bundle (JObject [(''raw'', JArray [JNum 0, JNum 1]), (''native'', JNum 1000)]) [])"
proof -
  have "okPacket (examplePlatform\<lparr>dateNow := 1000\<rparr>) (OscBundle 0 1 [])"
    using ex_immediate_ok by (simp only: okPacket_clock)
  then have "decodePacket (examplePlatform\<lparr>dateNow := 1000\<rparr>)
               (ofBytes (wirePacket (examplePlatform\<lparr>dateNow := 1000\<rparr>) (OscBundle 0 1 [])))
               (Some \<lparr>metadata = True, unpackSingleArgs = False\<rparr>) =
             Inr (jsPacket (dateNow (examplePlatform\<lparr>dateNow := 1000\<rparr>)) (OscBundle 0 1 []))"
    by (rule decodePacket_wire) simp_all
  then show ?thesis
    unfolding wirePacket_clock ex_immediate_wire by (simp add: timeTagValue_def)
qed

text \<open>
  The claim as stated fails in two ways. The message \<^verbatim>\<open>/a\<close> with the one argument
  \<^verbatim>\<open>{type: "i", value: 5}\<close> is written as twelve bytes; \<^verbatim>\<open>osc.readPacket\<close> on them without
  options throws a TypeError, at \<^verbatim>\<open>options.metadata\<close>, and with \<^verbatim>\<open>osc.defaults\<close> it returns
  a message whose \<^verbatim>\<open>args\<close> is the number 5, not the list holding the typed argument. And
  the empty bundle with the immediate time tag, built with the native time 0 and decoded
  with \<^verbatim>\<open>{metadata: true}\<close> when the clock shows 1000, comes back with the native time
  1000.
\<close>

theorem roundtrip_fails_with_default_options:
  "writePacket examplePlatform
     (Message (str ''/a'') (JArray [JObject [(''type'', JStr (str ''i'')), (''value'', JNum 5)]]))
     None = Inr [0x2F, 0x61, 0, 0, 0x2C, 0x69, 0, 0, 0, 0, 0, 5] \<and>
   decodePacket examplePlatform (ofBytes [0x2F, 0x61, 0, 0, 0x2C, 0x69, 0, 0, 0, 0, 0, 5]) None =
     Inl TypeError \<and>
   decodePacket examplePlatform (ofBytes [0x2F, 0x61, 0, 0, 0x2C, 0x69, 0, 0, 0, 0, 0, 5])
     (Some defaults) = Inr (Message (str ''/a'') (JNum 5)) \<and>
   JNum 5 \<noteq> JArray [JObject [(''type'', JStr (str ''i'')), (''value'', JNum 5)]] \<and>
   writePacket examplePlatform
     (Bundle (JObject [(''raw'', JArray [JNum 0, JNum 1]), (''native'', JNum 0)]) []) None =
     Inr [35, 98, 117, 110, 100, 108, 101, 0, 0, 0, 0, 0, 0, 0, 0, 1] \<and>
   decodePacket (examplePlatform\<lparr>dateNow := 1000\<rparr>)
     (ofBytes [35, 98, 117, 110, 100, 108, 101, 0, 0, 0, 0, 0, 0, 0, 0, 1])
     (Some \<lparr>metadata = True, unpackSingleArgs = False\<rparr>) =
     Inr (Bundle (JObject [(''raw'', JArray [JNum 0, JNum 1]), (''native'', JNum 1000)]) []) \<and>
   JNum 1000 \<noteq> JNum 0"
  using ex_int_message_written ex_int_message_no_options ex_int_message_defaults
    ex_immediate_written ex_immediate_read_later by simp

end
